theory Spec2Isabelle
  imports Main "HOL-Library.AList"
begin

chapter \<open>The program\<close>

section \<open>Rate limiter (cmd/server/main.go, internal/server/ratelimit)\<close>

text \<open>
  Go's \<open>time.Time\<close> values are compared through their monotonic clock reading; a
  reading is modelled as an integer number of nanoseconds. \<open>[]byte\<close> and \<open>string\<close>
  are both byte sequences.
\<close>

type_synonym time = int

type_synonym bytes = string

definition minute :: int where
  "minute = 60000000000"

record RateLimiter =
  connections :: "string \<rightharpoonup> int"
  authAttempts :: "string \<rightharpoonup> time list"
  maxConns :: int
  maxAuth :: int

text \<open>Reading a Go map at a missing key yields the zero value (0, the nil slice).\<close>

definition conn_count :: "RateLimiter \<Rightarrow> string \<Rightarrow> int" where
  "conn_count rl ip = (case connections rl ip of None \<Rightarrow> 0 | Some n \<Rightarrow> n)"

definition attempts_of :: "RateLimiter \<Rightarrow> string \<Rightarrow> time list" where
  "attempts_of rl ip = (case authAttempts rl ip of None \<Rightarrow> [] | Some ts \<Rightarrow> ts)"

text \<open>
  \<open>newRateLimiter\<close> reads two environment variables; \<open>os.Getenv\<close> and
  \<open>strconv.Atoi\<close> are taken as parameters (\<open>Atoi\<close> returns \<open>None\<close> on a parse error).
\<close>

definition env_int :: "(string \<Rightarrow> string) \<Rightarrow> (string \<Rightarrow> int option) \<Rightarrow> string \<Rightarrow> int \<Rightarrow> int" where
  "env_int getenv atoi name dflt =
     (let v = getenv name in
      if v \<noteq> [] then (case atoi v of Some n \<Rightarrow> n | None \<Rightarrow> dflt) else dflt)"

definition newRateLimiter :: "(string \<Rightarrow> string) \<Rightarrow> (string \<Rightarrow> int option) \<Rightarrow> RateLimiter" where
  "newRateLimiter getenv atoi =
     \<lparr> connections = Map.empty,
       authAttempts = Map.empty,
       maxConns = env_int getenv atoi ''MAX_CONNECTIONS_PER_IP'' 10,
       maxAuth = env_int getenv atoi ''AUTH_ATTEMPTS_PER_MIN'' 5 \<rparr>"

text \<open>\<open>t.After(cutoff)\<close> is \<open>cutoff < t\<close>.\<close>

definition after_cutoff :: "time \<Rightarrow> time list \<Rightarrow> time list" where
  "after_cutoff cutoff ts = filter (\<lambda>t. cutoff < t) ts"

definition cleanup :: "time \<Rightarrow> RateLimiter \<Rightarrow> RateLimiter" where
  "cleanup now rl =
     (let cutoff = now - minute in
      rl\<lparr>authAttempts := (\<lambda>ip.
            case authAttempts rl ip of
              None \<Rightarrow> None
            | Some attempts \<Rightarrow>
                (let valid = after_cutoff cutoff attempts in
                 if length valid = 0 then None else Some valid))\<rparr>)"

text \<open>
  The mutating operations pass the limiter through; \<open>canConnect\<close> takes the read lock
  and returns the limiter it was given.
\<close>

definition canConnect :: "string \<Rightarrow> RateLimiter \<Rightarrow> bool \<times> RateLimiter" where
  "canConnect ip rl = (conn_count rl ip < maxConns rl, rl)"

definition addConnection :: "string \<Rightarrow> RateLimiter \<Rightarrow> RateLimiter" where
  "addConnection ip rl = rl\<lparr>connections := (connections rl)(ip \<mapsto> conn_count rl ip + 1)\<rparr>"

definition removeConnection :: "string \<Rightarrow> RateLimiter \<Rightarrow> RateLimiter" where
  "removeConnection ip rl =
     (let rl1 = rl\<lparr>connections := (connections rl)(ip \<mapsto> conn_count rl ip - 1)\<rparr> in
      if conn_count rl1 ip \<le> 0
      then rl1\<lparr>connections := (connections rl1)(ip := None)\<rparr>
      else rl1)"

text \<open>
  \<open>canAuth\<close> reads the clock twice: once for the cutoff and once for the timestamp it
  records. Both readings are arguments, in that order.
\<close>

definition canAuth :: "time \<Rightarrow> time \<Rightarrow> string \<Rightarrow> RateLimiter \<Rightarrow> bool \<times> RateLimiter" where
  "canAuth now now' ip rl =
     (let cutoff = now - minute;
          recent = after_cutoff cutoff (attempts_of rl ip);
          rl1 = rl\<lparr>authAttempts := (authAttempts rl)(ip \<mapsto> recent)\<rparr>
      in if int (length recent) \<ge> maxAuth rl1 then (False, rl1)
         else (True, rl1\<lparr>authAttempts := (authAttempts rl1)(ip \<mapsto> attempts_of rl1 ip @ [now'])\<rparr>))"

text \<open>
  \<open>getClientIP\<close>: a request is its header lookup (\<open>r.Header.Get\<close>, the empty string
  for an absent header) and its peer address. \<open>net.SplitHostPort\<close> is a parameter: it
  returns the host and the port, and the code drops its error.
\<close>

record Request =
  Header_Get :: "string \<Rightarrow> string"
  RemoteAddr :: string

definition getClientIP :: "(string \<Rightarrow> string \<times> string) \<Rightarrow> Request \<Rightarrow> string" where
  "getClientIP splitHostPort r =
     (let xff = Header_Get r ''X-Forwarded-For'' in
      if xff \<noteq> [] then xff
      else let xri = Header_Get r ''X-Real-IP'' in
        if xri \<noteq> [] then xri
        else fst (splitHostPort (RemoteAddr r)))"

section \<open>The hub and the connection handler (cmd/server/main.go)\<close>

subsection \<open>Channels\<close>

text \<open>
  A \<open>*Client\<close> is identified by its address, a number. Its \<open>send\<close> channel is a
  buffered channel of capacity 256: the queued messages and whether it was closed.
  Sending on a closed channel and closing a closed channel panic.
\<close>

type_synonym cid = nat

record chan =
  buf :: "bytes list"
  closed :: bool

definition chan_cap :: nat where
  "chan_cap = 256"

definition make_chan :: chan where
  "make_chan = \<lparr> buf = [], closed = False \<rparr>"

datatype panic = SendOnClosedChannel | CloseOfClosedChannel

definition chan_close :: "chan \<Rightarrow> panic + chan" where
  "chan_close ch = (if closed ch then Inl CloseOfClosedChannel else Inr (ch\<lparr>closed := True\<rparr>))"

text \<open>\<open>select { case ch <- m: default: }\<close>: \<open>None\<close> is the default branch.\<close>

definition try_send :: "bytes \<Rightarrow> chan \<Rightarrow> panic + chan option" where
  "try_send m ch =
     (if closed ch then Inl SendOnClosedChannel
      else if length (buf ch) < chan_cap then Inr (Some (ch\<lparr>buf := buf ch @ [m]\<rparr>))
      else Inr None)"

subsection \<open>Server state\<close>

text \<open>
  The state the goroutines share: the hub's \<open>clients\<close> map (an association list over
  client addresses), the fields of every \<open>Client\<close>, the rate limiter and the database,
  and for every connection the address it was admitted under, whether its reader loop
  and its writer goroutine have returned, and how often \<open>conn.Close()\<close> was called.
  A reader that found its own queue full is parked on the message it is sending.
  \<open>next_client\<close> is the next address the allocator hands out.
\<close>

record 'db server =
  hub_clients :: "(cid \<times> bool) list"
  userID :: "cid \<Rightarrow> int"
  username :: "cid \<Rightarrow> string"
  send :: "cid \<Rightarrow> chan"
  limiter :: RateLimiter
  db :: 'db
  clientIP :: "cid \<Rightarrow> string"
  reader_done :: "cid \<Rightarrow> bool"
  writer_done :: "cid \<Rightarrow> bool"
  conn_closes :: "cid \<Rightarrow> nat"
  parked :: "cid \<Rightarrow> bytes option"
  next_client :: cid

definition registered :: "'db server \<Rightarrow> cid set" where
  "registered s = fst ` set (hub_clients s)"

definition init_server :: "RateLimiter \<Rightarrow> 'db \<Rightarrow> 'db server" where
  "init_server rl d =
     \<lparr> hub_clients = [], userID = (\<lambda>_. 0), username = (\<lambda>_. []), send = (\<lambda>_. make_chan),
       limiter = rl, db = d, clientIP = (\<lambda>_. []), reader_done = (\<lambda>_. False),
       writer_done = (\<lambda>_. False), conn_closes = (\<lambda>_. 0), parked = (\<lambda>_. None),
       next_client = 0 \<rparr>"

subsection \<open>Hub.run\<close>

definition hub_register :: "cid \<Rightarrow> 'db server \<Rightarrow> 'db server" where
  "hub_register c s = s\<lparr>hub_clients := AList.update c True (hub_clients s)\<rparr>"

definition hub_unregister :: "cid \<Rightarrow> 'db server \<Rightarrow> panic + 'db server" where
  "hub_unregister c s =
     (if map_of (hub_clients s) c \<noteq> None
      then (case chan_close (send s c) of
              Inl p \<Rightarrow> Inl p
            | Inr ch \<Rightarrow> Inr (s\<lparr>hub_clients := AList.delete c (hub_clients s),
                               send := (send s)(c := ch)\<rparr>))
      else Inr s)"

text \<open>
  The broadcast case ranges over the map; Go fixes no iteration order, so the loop is
  defined over any enumeration of the keys. Only the key under the cursor is deleted.
\<close>

fun broadcast_over :: "cid list \<Rightarrow> bytes \<Rightarrow> 'db server \<Rightarrow> panic + 'db server" where
  "broadcast_over [] m s = Inr s"
| "broadcast_over (c # cs) m s =
     (case try_send m (send s c) of
        Inl p \<Rightarrow> Inl p
      | Inr (Some ch) \<Rightarrow> broadcast_over cs m (s\<lparr>send := (send s)(c := ch)\<rparr>)
      | Inr None \<Rightarrow>
          (case chan_close (send s c) of
             Inl p \<Rightarrow> Inl p
           | Inr ch \<Rightarrow>
               broadcast_over cs m
                 (s\<lparr>send := (send s)(c := ch),
                    hub_clients := AList.delete c (hub_clients s)\<rparr>)))"

definition hub_broadcast :: "bytes \<Rightarrow> 'db server \<Rightarrow> panic + 'db server" where
  "hub_broadcast m s = broadcast_over (map fst (hub_clients s)) m s"

datatype hub_op = Register cid | Unregister cid | Broadcast bytes

fun hub_step :: "hub_op \<Rightarrow> 'db server \<Rightarrow> panic + 'db server" where
  "hub_step (Register c) s = Inr (hub_register c s)"
| "hub_step (Unregister c) s = hub_unregister c s"
| "hub_step (Broadcast m) s = hub_broadcast m s"

fun hub_run :: "hub_op list \<Rightarrow> 'db server \<Rightarrow> panic + 'db server" where
  "hub_run [] s = Inr s"
| "hub_run (x # xs) s = (case hub_step x s of Inl p \<Rightarrow> Inl p | Inr s' \<Rightarrow> hub_run xs s')"

subsection \<open>Wire messages and the external collaborators\<close>

record WSMessage =
  Type :: string
  Payload :: bytes

record AuthPayload =
  Username :: string
  Password :: string
  Action :: string

record SendMessagePayload =
  sm_ConversationID :: int
  sm_Content :: string

record CreateConversationPayload =
  cc_Name :: string
  cc_IsGroup :: bool
  cc_Usernames :: "string list"

record Conversation =
  cv_ID :: int
  cv_Name :: "string option"
  cv_IsGroup :: bool
  cv_CreatedAt :: time
  cv_Participants :: "string list"
  cv_UnreadCount :: int

record Message =
  ms_ID :: int
  ms_ConversationID :: int
  ms_SenderID :: int
  ms_SenderUsername :: string
  ms_Content :: string
  ms_CreatedAt :: time

text \<open>The maps the handler passes to \<open>json.Marshal\<close>, one constructor per \<open>"type"\<close>.\<close>

datatype resp =
    Resp_auth_error string
  | Resp_auth_success int string "Conversation list"
  | Resp_typing int int string
  | Resp_user_check_result string bool
  | Resp_error string
  | Resp_conversation_created Conversation
  | Resp_messages int "Message list"
  | Resp_new_message Message
  | Resp_conversations "Conversation list"

text \<open>
  JSON coding and the database functions of \<open>main.go\<close> are parameters. A decoder of a
  payload returns the struct \<open>json.Unmarshal\<close> leaves behind (its error is dropped by
  the handler); a database function takes the database and returns it with its result,
  an error being the left summand.
\<close>

record 'db env =
  unmarshal_msg :: "bytes \<Rightarrow> WSMessage option"
  decode_auth :: "bytes \<Rightarrow> AuthPayload"
  decode_conversation_id :: "bytes \<Rightarrow> int"
  decode_check_user :: "bytes \<Rightarrow> string"
  decode_create :: "bytes \<Rightarrow> CreateConversationPayload"
  decode_send :: "bytes \<Rightarrow> SendMessagePayload"
  decode_id_name :: "bytes \<Rightarrow> int \<times> string"
  marshal :: "resp \<Rightarrow> bytes"
  handleAuth :: "AuthPayload \<Rightarrow> 'db \<Rightarrow> (string + int \<times> string) \<times> 'db"
  checkUserExists :: "string \<Rightarrow> 'db \<Rightarrow> (bool \<times> int) \<times> 'db"
  createConversation :: "int \<Rightarrow> CreateConversationPayload \<Rightarrow> 'db \<Rightarrow> (string + Conversation) \<times> 'db"
  getUserConversations :: "int \<Rightarrow> 'db \<Rightarrow> Conversation list \<times> 'db"
  updateReadReceipt :: "int \<Rightarrow> int \<Rightarrow> 'db \<Rightarrow> 'db"
  getConversationMessages :: "int \<Rightarrow> int \<Rightarrow> 'db \<Rightarrow> Message list \<times> 'db"
  saveMessage :: "int \<Rightarrow> int \<Rightarrow> string \<Rightarrow> 'db \<Rightarrow> (string + Message) \<times> 'db"
  addParticipant :: "int \<Rightarrow> string \<Rightarrow> 'db \<Rightarrow> string option \<times> 'db"
  renameConversation :: "int \<Rightarrow> string \<Rightarrow> 'db \<Rightarrow> 'db"
  leaveConversation :: "int \<Rightarrow> int \<Rightarrow> 'db \<Rightarrow> 'db"

subsection \<open>handleWebSocket: admission\<close>

datatype accept_result = TooManyRequests | UpgradeError | Accepted cid

definition handleWebSocket_accept ::
  "(string \<Rightarrow> string \<times> string) \<Rightarrow> Request \<Rightarrow> bool \<Rightarrow> 'db server \<Rightarrow> accept_result \<times> 'db server" where
  "handleWebSocket_accept splitHostPort r upgrade_ok s =
     (let ip = getClientIP splitHostPort r in
      if \<not> fst (canConnect ip (limiter s)) then (TooManyRequests, s)
      else if \<not> upgrade_ok then (UpgradeError, s)
      else let c = next_client s in
        (Accepted c,
         s\<lparr>limiter := addConnection ip (limiter s),
           userID := (userID s)(c := 0),
           username := (username s)(c := []),
           send := (send s)(c := make_chan),
           clientIP := (clientIP s)(c := ip),
           reader_done := (reader_done s)(c := False),
           writer_done := (writer_done s)(c := False),
           conn_closes := (conn_closes s)(c := 0),
           parked := (parked s)(c := None),
           next_client := Suc c\<rparr>))"

subsection \<open>handleWebSocket: the writer goroutine\<close>

text \<open>
  One turn of \<open>for msg := range client.send\<close>: with a message queued it is taken and
  written (\<open>write_ok\<close> is whether \<open>WriteMessage\<close> succeeds); with the queue empty and
  closed the loop ends; with the queue empty and open the goroutine waits. Leaving the
  loop runs the deferred release and \<open>conn.Close()\<close>.
\<close>

definition writer_exit :: "cid \<Rightarrow> 'db server \<Rightarrow> 'db server" where
  "writer_exit c s =
     s\<lparr>limiter := removeConnection (clientIP s c) (limiter s),
       conn_closes := (conn_closes s)(c := Suc (conn_closes s c)),
       writer_done := (writer_done s)(c := True)\<rparr>"

definition writer_step :: "cid \<Rightarrow> bool \<Rightarrow> 'db server \<Rightarrow> 'db server" where
  "writer_step c write_ok s =
     (if writer_done s c then s
      else case buf (send s c) of
        msg # rest \<Rightarrow>
          (let s1 = s\<lparr>send := (send s)(c := (send s c)\<lparr>buf := rest\<rparr>)\<rparr> in
           if write_ok then s1 else writer_exit c s1)
      | [] \<Rightarrow> if closed (send s c) then writer_exit c s else s)"

subsection \<open>handleWebSocket: the reader loop\<close>

text \<open>
  The reader loop is the body of the HTTP handler. A panic in it unwinds
  \<open>handleWebSocket\<close>, which defers nothing, with the state as it is at the panicking
  statement. What the reader sends to the hub is carried out by \<open>Hub.run\<close>, a goroutine
  of its own: a panic there is a panic of the hub.
\<close>

datatype 'db fault = HubPanic panic | HandlerPanic panic "'db server"

definition in_hub :: "panic + 'db server \<Rightarrow> 'db fault + 'db server" where
  "in_hub r = (case r of Inl p \<Rightarrow> Inl (HubPanic p) | Inr s \<Rightarrow> Inr s)"

text \<open>
  \<open>client.send <- resp\<close> is the last action of every loop turn that performs it: with
  the queue full the reader parks on the message, with the queue closed it panics.
\<close>

definition client_send :: "cid \<Rightarrow> bytes \<Rightarrow> 'db server \<Rightarrow> 'db fault + 'db server" where
  "client_send c m s =
     (case try_send m (send s c) of
        Inl p \<Rightarrow> Inl (HandlerPanic p s)
      | Inr (Some ch) \<Rightarrow> Inr (s\<lparr>send := (send s)(c := ch)\<rparr>)
      | Inr None \<Rightarrow> Inr (s\<lparr>parked := (parked s)(c := Some m)\<rparr>))"

definition on_auth :: "'db env \<Rightarrow> time \<Rightarrow> time \<Rightarrow> cid \<Rightarrow> WSMessage \<Rightarrow> 'db server \<Rightarrow> 'db fault + 'db server" where
  "on_auth env now now' c wsMsg s =
     (let (ok, rl) = canAuth now now' (clientIP s c) (limiter s);
          s1 = s\<lparr>limiter := rl\<rparr>
      in if \<not> ok
         then client_send c
                (marshal env (Resp_auth_error ''Too many login attempts. Please wait a minute.'')) s1
         else let payload = decode_auth env (Payload wsMsg);
                  (res, d1) = handleAuth env payload (db s1);
                  s2 = s1\<lparr>db := d1\<rparr>
              in case res of
                   Inl err \<Rightarrow> client_send c (marshal env (Resp_auth_error err)) s2
                 | Inr (uid, uname) \<Rightarrow>
                     (let s3 = s2\<lparr>userID := (userID s2)(c := uid),
                                   username := (username s2)(c := uname)\<rparr>;
                          s4 = hub_register c s3;
                          (convs, d2) = getUserConversations env uid (db s4);
                          s5 = s4\<lparr>db := d2\<rparr>
                      in client_send c (marshal env (Resp_auth_success uid uname convs)) s5))"

definition on_typing :: "'db env \<Rightarrow> cid \<Rightarrow> WSMessage \<Rightarrow> 'db server \<Rightarrow> 'db fault + 'db server" where
  "on_typing env c wsMsg s =
     (if userID s c = 0 then Inr s
      else let conversation_id = decode_conversation_id env (Payload wsMsg) in
        in_hub (hub_broadcast (marshal env (Resp_typing conversation_id (userID s c) (username s c))) s))"

definition on_check_user :: "'db env \<Rightarrow> cid \<Rightarrow> WSMessage \<Rightarrow> 'db server \<Rightarrow> 'db fault + 'db server" where
  "on_check_user env c wsMsg s =
     (let name = decode_check_user env (Payload wsMsg);
          ((exists, uid), d1) = checkUserExists env name (db s);
          s1 = s\<lparr>db := d1\<rparr>
      in client_send c (marshal env (Resp_user_check_result name exists)) s1)"

definition on_create_conversation :: "'db env \<Rightarrow> cid \<Rightarrow> WSMessage \<Rightarrow> 'db server \<Rightarrow> 'db fault + 'db server" where
  "on_create_conversation env c wsMsg s =
     (if userID s c = 0 then Inr s
      else let payload = decode_create env (Payload wsMsg);
               (res, d1) = createConversation env (userID s c) payload (db s);
               s1 = s\<lparr>db := d1\<rparr>
           in case res of
                Inl err \<Rightarrow> client_send c (marshal env (Resp_error err)) s1
              | Inr conv \<Rightarrow> client_send c (marshal env (Resp_conversation_created conv)) s1)"

definition on_get_messages :: "'db env \<Rightarrow> cid \<Rightarrow> WSMessage \<Rightarrow> 'db server \<Rightarrow> 'db fault + 'db server" where
  "on_get_messages env c wsMsg s =
     (if userID s c = 0 then Inr s
      else let conversation_id = decode_conversation_id env (Payload wsMsg);
               d1 = updateReadReceipt env (userID s c) conversation_id (db s);
               (msgs, d2) = getConversationMessages env conversation_id 100 d1;
               s1 = s\<lparr>db := d2\<rparr>
           in client_send c (marshal env (Resp_messages conversation_id msgs)) s1)"

definition on_read_receipt :: "'db env \<Rightarrow> cid \<Rightarrow> WSMessage \<Rightarrow> 'db server \<Rightarrow> 'db fault + 'db server" where
  "on_read_receipt env c wsMsg s =
     (if userID s c = 0 then Inr s
      else let conversation_id = decode_conversation_id env (Payload wsMsg) in
        Inr (s\<lparr>db := updateReadReceipt env (userID s c) conversation_id (db s)\<rparr>))"

definition on_send_message :: "'db env \<Rightarrow> cid \<Rightarrow> WSMessage \<Rightarrow> 'db server \<Rightarrow> 'db fault + 'db server" where
  "on_send_message env c wsMsg s =
     (if userID s c = 0 then Inr s
      else let payload = decode_send env (Payload wsMsg);
               (res, d1) = saveMessage env (sm_ConversationID payload) (userID s c)
                             (sm_Content payload) (db s);
               s1 = s\<lparr>db := d1\<rparr>
           in case res of
                Inl err \<Rightarrow> Inr s1
              | Inr msg \<Rightarrow> in_hub (hub_broadcast (marshal env (Resp_new_message msg)) s1))"

definition on_get_conversations :: "'db env \<Rightarrow> cid \<Rightarrow> WSMessage \<Rightarrow> 'db server \<Rightarrow> 'db fault + 'db server" where
  "on_get_conversations env c wsMsg s =
     (if userID s c = 0 then Inr s
      else let (convs, d1) = getUserConversations env (userID s c) (db s);
               s1 = s\<lparr>db := d1\<rparr>
           in client_send c (marshal env (Resp_conversations convs)) s1)"

definition on_add_participant :: "'db env \<Rightarrow> cid \<Rightarrow> WSMessage \<Rightarrow> 'db server \<Rightarrow> 'db fault + 'db server" where
  "on_add_participant env c wsMsg s =
     (if userID s c = 0 then Inr s
      else let (conversation_id, name) = decode_id_name env (Payload wsMsg);
               (err, d1) = addParticipant env conversation_id name (db s)
           in case err of
                Some e \<Rightarrow> client_send c (marshal env (Resp_error e)) (s\<lparr>db := d1\<rparr>)
              | None \<Rightarrow>
                  (let (convs, d2) = getUserConversations env (userID s c) d1 in
                   client_send c (marshal env (Resp_conversations convs)) (s\<lparr>db := d2\<rparr>)))"

definition on_rename_conversation :: "'db env \<Rightarrow> cid \<Rightarrow> WSMessage \<Rightarrow> 'db server \<Rightarrow> 'db fault + 'db server" where
  "on_rename_conversation env c wsMsg s =
     (if userID s c = 0 then Inr s
      else let (conversation_id, name) = decode_id_name env (Payload wsMsg);
               d1 = renameConversation env conversation_id name (db s);
               (convs, d2) = getUserConversations env (userID s c) d1
           in client_send c (marshal env (Resp_conversations convs)) (s\<lparr>db := d2\<rparr>))"

definition on_leave_conversation :: "'db env \<Rightarrow> cid \<Rightarrow> WSMessage \<Rightarrow> 'db server \<Rightarrow> 'db fault + 'db server" where
  "on_leave_conversation env c wsMsg s =
     (if userID s c = 0 then Inr s
      else let conversation_id = decode_conversation_id env (Payload wsMsg);
               d1 = leaveConversation env (userID s c) conversation_id (db s);
               (convs, d2) = getUserConversations env (userID s c) d1
           in client_send c (marshal env (Resp_conversations convs)) (s\<lparr>db := d2\<rparr>))"

text \<open>The \<open>switch wsMsg.Type\<close>; a tag with no case falls through to the next turn.\<close>

definition dispatch :: "'db env \<Rightarrow> time \<Rightarrow> time \<Rightarrow> cid \<Rightarrow> WSMessage \<Rightarrow> 'db server \<Rightarrow> 'db fault + 'db server" where
  "dispatch env now now' c wsMsg s =
     (if Type wsMsg = ''auth'' then on_auth env now now' c wsMsg s
      else if Type wsMsg = ''typing'' then on_typing env c wsMsg s
      else if Type wsMsg = ''check_user'' then on_check_user env c wsMsg s
      else if Type wsMsg = ''create_conversation'' then on_create_conversation env c wsMsg s
      else if Type wsMsg = ''get_messages'' then on_get_messages env c wsMsg s
      else if Type wsMsg = ''read_receipt'' then on_read_receipt env c wsMsg s
      else if Type wsMsg = ''send_message'' then on_send_message env c wsMsg s
      else if Type wsMsg = ''get_conversations'' then on_get_conversations env c wsMsg s
      else if Type wsMsg = ''add_participant'' then on_add_participant env c wsMsg s
      else if Type wsMsg = ''rename_conversation'' then on_rename_conversation env c wsMsg s
      else if Type wsMsg = ''leave_conversation'' then on_leave_conversation env c wsMsg s
      else Inr s)"

text \<open>
  One turn of the reader loop. \<open>conn.ReadMessage()\<close> yields an error or the bytes of a
  frame; once the connection was closed it yields an error. A parked reader first
  completes its send, and panics when the queue was closed in the meantime. After
  \<open>return\<close> the loop takes no further turn.
\<close>

datatype read_result = ReadError | ReadMessage bytes

definition reader_step ::
  "'db env \<Rightarrow> time \<Rightarrow> time \<Rightarrow> cid \<Rightarrow> read_result \<Rightarrow> 'db server \<Rightarrow> 'db fault + 'db server" where
  "reader_step env now now' c input s =
     (if reader_done s c then Inr s
      else case parked s c of
        Some m \<Rightarrow>
          (case try_send m (send s c) of
             Inl p \<Rightarrow> Inl (HandlerPanic p s)
           | Inr (Some ch) \<Rightarrow> Inr (s\<lparr>send := (send s)(c := ch), parked := (parked s)(c := None)\<rparr>)
           | Inr None \<Rightarrow> Inr s)
      | None \<Rightarrow>
          (case (if 0 < conn_closes s c then ReadError else input) of
             ReadError \<Rightarrow>
               (if userID s c \<noteq> 0
                then (case hub_unregister c s of
                        Inl p \<Rightarrow> Inl (HubPanic p)
                      | Inr s1 \<Rightarrow> Inr (s1\<lparr>reader_done := (reader_done s1)(c := True)\<rparr>))
                else Inr (s\<lparr>reader_done := (reader_done s)(c := True)\<rparr>))
           | ReadMessage msgBytes \<Rightarrow>
               (case unmarshal_msg env msgBytes of
                  None \<Rightarrow> Inr s
                | Some wsMsg \<Rightarrow> dispatch env now now' c wsMsg s)))"

subsection \<open>The goroutines together\<close>

text \<open>
  An event is one atomic action of one goroutine: the handler admitting a request, a
  turn of a connection's reader loop (with the clock readings and the outcome of its
  read), or a turn of its writer goroutine. Only admitted connections have goroutines.
  A panic of the handler is recovered by the \<open>net/http\<close> goroutine that serves the
  connection: the reader loop is gone, the connection, which the upgrade took over, is
  not closed, and the server goes on. \<open>Hub.run\<close> was started with \<open>go\<close> and nothing
  recovers its panic: the process ends, which is the left summand of a step and of a run.
\<close>

datatype event =
    EvAccept Request bool
  | EvReader cid time time read_result
  | EvWriter cid bool

fun sys_step ::
  "(string \<Rightarrow> string \<times> string) \<Rightarrow> 'db env \<Rightarrow> event \<Rightarrow> 'db server \<Rightarrow> panic + 'db server" where
  "sys_step sp env (EvAccept r upgrade_ok) s = Inr (snd (handleWebSocket_accept sp r upgrade_ok s))"
| "sys_step sp env (EvReader c now now' input) s =
     (if c < next_client s
      then (case reader_step env now now' c input s of
              Inr s' \<Rightarrow> Inr s'
            | Inl (HandlerPanic p s1) \<Rightarrow> Inr (s1\<lparr>reader_done := (reader_done s1)(c := True)\<rparr>)
            | Inl (HubPanic p) \<Rightarrow> Inl p)
      else Inr s)"
| "sys_step sp env (EvWriter c write_ok) s =
     (if c < next_client s then Inr (writer_step c write_ok s) else Inr s)"

fun sys_run ::
  "(string \<Rightarrow> string \<times> string) \<Rightarrow> 'db env \<Rightarrow> event list \<Rightarrow> 'db server \<Rightarrow> panic + 'db server" where
  "sys_run sp env [] s = Inr s"
| "sys_run sp env (e # es) s =
     (case sys_step sp env e s of Inl p \<Rightarrow> Inl p | Inr s' \<Rightarrow> sys_run sp env es s')"

section \<open>The client's reconnect cycle (cmd/client/main.go)\<close>

text \<open>
  The fields of the Bubble Tea \<open>model\<close> that the connection cases of \<open>Update\<close>
  read or write. A connection is identified by a number, an error by its text; the
  client's own \<open>Session\<close> struct holds a user name and a password.
\<close>

record ClientSession =
  cs_Username :: string
  cs_Password :: string

record model =
  conn :: "nat option"
  serverURL :: string
  connected :: bool
  isReconnecting :: bool
  authAction :: string
  usernameInput :: string
  passwordInput :: string
  isLoading :: bool
  savedSession :: "ClientSession option"
  pendingPassword :: string
  err :: "string option"
  reconnectCount :: int

datatype msg = WsConnected nat | WsError string | WsReconnect

text \<open>
  Commands: \<open>tea.Tick\<close> carries its delay in nanoseconds and the message its callback
  returns; \<open>sendWSMessage("auth", ...)\<close> carries the three fields of its payload.
\<close>

datatype cmd =
    NoCmd
  | Tick int msg
  | ConnectToServer string
  | ListenForMessages nat
  | SendAuth string string string
  | Batch "cmd list"

definition Second :: int where
  "Second = 1000000000"

fun Update :: "model \<Rightarrow> msg \<Rightarrow> model \<times> cmd" where
  "Update m (WsConnected c) =
     (let m1 = m\<lparr>conn := Some c, connected := True, isReconnecting := False, reconnectCount := 0\<rparr> in
      if isLoading m1
      then (m1, Batch [ListenForMessages c,
                       SendAuth (usernameInput m1) (passwordInput m1) (authAction m1)])
      else case savedSession m1 of
        Some sess \<Rightarrow>
          (m1\<lparr>pendingPassword := cs_Password sess\<rparr>,
           Batch [ListenForMessages c, SendAuth (cs_Username sess) (cs_Password sess) ''login''])
      | None \<Rightarrow> (m1, ListenForMessages c))"
| "Update m (WsError e) =
     (let m1 = m\<lparr>connected := False, conn := None\<rparr> in
      if reconnectCount m1 < 5
      then (let m2 = m1\<lparr>reconnectCount := reconnectCount m1 + 1\<rparr>;
                m3 = m2\<lparr>isReconnecting := True\<rparr>;
                delay = Second * reconnectCount m3
            in (m3, Tick delay WsReconnect))
      else (m1\<lparr>isReconnecting := False, err := Some e\<rparr>, NoCmd))"
| "Update m WsReconnect = (m\<lparr>isReconnecting := True\<rparr>, ConnectToServer (serverURL m))"

text \<open>
  The runtime's side of the cycle: a \<open>connectToServer\<close> command dials once and feeds
  back \<open>wsConnected\<close> or \<open>wsError\<close>, a tick waits and feeds back its message. The
  connector says whether the dial with a given number (from 0) succeeds. The cycle is
  followed until a command other than these two comes back; it records the number of
  dials made and the delays waited. \<open>None\<close>: the step budget ran out first.
\<close>

fun drive :: "nat \<Rightarrow> (nat \<Rightarrow> bool) \<Rightarrow> model \<Rightarrow> cmd \<Rightarrow> nat \<Rightarrow> int list
    \<Rightarrow> (model \<times> cmd \<times> nat \<times> int list) option" where
  "drive 0 con m c n ds = None"
| "drive (Suc fuel) con m (ConnectToServer url) n ds =
     (let (m', c') = Update m (if con n then WsConnected n else WsError ''dial failed'')
      in drive fuel con m' c' (Suc n) ds)"
| "drive (Suc fuel) con m (Tick d x) n ds =
     (let (m', c') = Update m x in drive fuel con m' c' n (ds @ [d]))"
| "drive (Suc fuel) con m c n ds = Some (m, c, n, ds)"

section \<open>The client's saved session (internal/client/session)\<close>

text \<open>
  The operating system and the libraries are parameters: the home directory, the host
  name, path joining, \<open>strings.TrimSpace\<close>, SHA-256, the AES-GCM seal and open
  functions (key, nonce, text), base64, the JSON coding of a \<open>Session\<close>, and whether
  \<open>os.MkdirAll\<close> and \<open>os.WriteFile\<close> succeed on a path. The world that changes is the
  file contents and the bytes still to come from \<open>rand.Reader\<close>.
\<close>

record Session =
  ServerURL :: string
  ss_Username :: string
  ss_Password :: string

record session_env =
  home_dir :: "string option"
  hostname :: string
  path_join :: "string list \<Rightarrow> string"
  trim_space :: "string \<Rightarrow> string"
  sha256 :: "bytes \<Rightarrow> bytes"
  seal :: "bytes \<Rightarrow> bytes \<Rightarrow> bytes \<Rightarrow> bytes"
  unseal :: "bytes \<Rightarrow> bytes \<Rightarrow> bytes \<Rightarrow> bytes option"
  b64_encode :: "bytes \<Rightarrow> string"
  b64_decode :: "string \<Rightarrow> bytes option"
  json_marshal :: "Session \<Rightarrow> bytes option"
  json_unmarshal :: "bytes \<Rightarrow> Session option"
  mkdir_ok :: "string \<Rightarrow> bool"
  write_ok :: "string \<Rightarrow> bool"

record world =
  files :: "string \<rightharpoonup> bytes"
  entropy :: bytes

text \<open>A call returns an error value, or panics.\<close>

datatype failure = Error string | Panic string

definition GetConfigDir :: "session_env \<Rightarrow> string \<Rightarrow> string" where
  "GetConfigDir env profileName =
     (case home_dir env of
        None \<Rightarrow> []
      | Some home \<Rightarrow> path_join env [home, ''.config'', ''cldzmsg'', profileName])"

definition session_path :: "session_env \<Rightarrow> string \<Rightarrow> string" where
  "session_path env profileName = path_join env [GetConfigDir env profileName, ''session.json'']"

text \<open>The first of the two machine-id files that can be read decides the id, trimmed.\<close>

fun first_readable :: "session_env \<Rightarrow> world \<Rightarrow> string list \<Rightarrow> string" where
  "first_readable env w [] = []"
| "first_readable env w (p # ps) =
     (case files w p of
        Some data \<Rightarrow> trim_space env data
      | None \<Rightarrow> first_readable env w ps)"

definition getEncryptionKey :: "session_env \<Rightarrow> world \<Rightarrow> bytes" where
  "getEncryptionKey env w =
     (let id = first_readable env w [''/etc/machine-id'', ''/var/lib/dbus/machine-id''];
          id' = (if id = [] then hostname env else id)
      in sha256 env id')"

text \<open>
  \<open>aes.NewCipher\<close> accepts keys of 16, 24 or 32 bytes; \<open>cipher.NewGCM\<close> on an AES
  block does not fail and its nonce size is 12. \<open>Seal\<close> and \<open>Open\<close> panic on a nonce
  of another length; \<open>Seal(nonce, nonce, data, nil)\<close> appends the sealed text to the
  nonce.
\<close>

definition NewCipher :: "bytes \<Rightarrow> failure + bytes" where
  "NewCipher key =
     (if length key = 16 \<or> length key = 24 \<or> length key = 32 then Inr key
      else Inl (Error ''crypto/aes: invalid key size''))"

definition NonceSize :: nat where
  "NonceSize = 12"

definition gcm_Seal :: "session_env \<Rightarrow> bytes \<Rightarrow> bytes \<Rightarrow> bytes \<Rightarrow> bytes \<Rightarrow> failure + bytes" where
  "gcm_Seal env key dst nonce plaintext =
     (if length nonce \<noteq> NonceSize then Inl (Panic ''crypto/cipher: incorrect nonce length given to GCM'')
      else Inr (dst @ seal env key nonce plaintext))"

definition gcm_Open :: "session_env \<Rightarrow> bytes \<Rightarrow> bytes \<Rightarrow> bytes \<Rightarrow> failure + bytes" where
  "gcm_Open env key nonce ciphertext =
     (if length nonce \<noteq> NonceSize then Inl (Panic ''crypto/cipher: incorrect nonce length given to GCM'')
      else case unseal env key nonce ciphertext of
        None \<Rightarrow> Inl (Error ''cipher: message authentication failed'')
      | Some plaintext \<Rightarrow> Inr plaintext)"

text \<open>\<open>io.ReadFull(rand.Reader, nonce)\<close> fills the whole buffer or fails.\<close>

definition ReadFull :: "nat \<Rightarrow> world \<Rightarrow> bytes option \<times> world" where
  "ReadFull n w =
     (if n \<le> length (entropy w) then (Some (take n (entropy w)), w\<lparr>entropy := drop n (entropy w)\<rparr>)
      else (None, w\<lparr>entropy := []\<rparr>))"

definition encrypt :: "session_env \<Rightarrow> bytes \<Rightarrow> world \<Rightarrow> (failure + string) \<times> world" where
  "encrypt env data w =
     (let key = getEncryptionKey env w in
      case NewCipher key of
        Inl e \<Rightarrow> (Inl e, w)
      | Inr block \<Rightarrow>
          (case ReadFull NonceSize w of
             (None, w1) \<Rightarrow> (Inl (Error ''unexpected EOF''), w1)
           | (Some nonce, w1) \<Rightarrow>
               (case gcm_Seal env block nonce nonce data of
                  Inl e \<Rightarrow> (Inl e, w1)
                | Inr ciphertext \<Rightarrow> (Inr (b64_encode env ciphertext), w1))))"

definition decrypt :: "session_env \<Rightarrow> string \<Rightarrow> world \<Rightarrow> failure + bytes" where
  "decrypt env encoded w =
     (case b64_decode env encoded of
        None \<Rightarrow> Inl (Error ''illegal base64 data'')
      | Some data \<Rightarrow>
          (let key = getEncryptionKey env w in
           case NewCipher key of
             Inl e \<Rightarrow> Inl e
           | Inr block \<Rightarrow>
               if length data < NonceSize then Inl (Error ''ciphertext too short'')
               else gcm_Open env block (take NonceSize data) (drop NonceSize data)))"

text \<open>\<open>Save\<close> returns its error, if any; \<open>Load\<close> returns the session or nil.\<close>

definition Save ::
  "session_env \<Rightarrow> string \<Rightarrow> string \<Rightarrow> string \<Rightarrow> string \<Rightarrow> world \<Rightarrow> failure option \<times> world" where
  "Save env profileName url uname password w =
     (let configDir = GetConfigDir env profileName in
      if configDir = [] then (Some (Error ''could not get config directory''), w)
      else if \<not> mkdir_ok env configDir then (Some (Error ''mkdir''), w)
      else let session = \<lparr>ServerURL = url, ss_Username = uname, ss_Password = password\<rparr> in
        case json_marshal env session of
          None \<Rightarrow> (Some (Error ''json''), w)
        | Some data \<Rightarrow>
            (case encrypt env data w of
               (Inl e, w1) \<Rightarrow> (Some e, w1)
             | (Inr encrypted, w1) \<Rightarrow>
                 (let path = path_join env [configDir, ''session.json''] in
                  if write_ok env path
                  then (None, w1\<lparr>files := (files w1)(path \<mapsto> encrypted)\<rparr>)
                  else (Some (Error ''write''), w1))))"

definition Load :: "session_env \<Rightarrow> string \<Rightarrow> world \<Rightarrow> failure + (Session option \<times> world)" where
  "Load env profileName w =
     (let configDir = GetConfigDir env profileName in
      if configDir = [] then Inr (None, w)
      else case files w (path_join env [configDir, ''session.json'']) of
        None \<Rightarrow> Inr (None, w)
      | Some data \<Rightarrow>
          (case decrypt env data w of
             Inl (Panic p) \<Rightarrow> Inl (Panic p)
           | Inl (Error e) \<Rightarrow>
               (case json_unmarshal env data of
                  Some session \<Rightarrow>
                    (case Save env profileName (ServerURL session) (ss_Username session)
                            (ss_Password session) w of
                       (Some (Panic p), w1) \<Rightarrow> Inl (Panic p)
                     | (r, w1) \<Rightarrow> Inr (Some session, w1))
                | None \<Rightarrow> Inr (None, w))
           | Inr decrypted \<Rightarrow>
               (case json_unmarshal env decrypted of
                  None \<Rightarrow> Inr (None, w)
                | Some session \<Rightarrow> Inr (Some session, w))))"

definition Clear :: "session_env \<Rightarrow> string \<Rightarrow> world \<Rightarrow> world" where
  "Clear env profileName w =
     (let configDir = GetConfigDir env profileName in
      if configDir \<noteq> [] then w\<lparr>files := (files w)(path_join env [configDir, ''session.json''] := None)\<rparr>
      else w)"

chapter \<open>Predicates and runs used in the statements\<close>

section \<open>Rate limiter (cmd/server/main.go, internal/server/ratelimit)\<close>


section \<open>Authentication attempts: the sliding window\<close>

text \<open>
  A history of limiter calls, in the order in which they take the lock. The clock
  readings of a history never go back.
\<close>

datatype rl_call = CallCanAuth time time string | CallCleanup time

fun mono_clock :: "time \<Rightarrow> rl_call list \<Rightarrow> bool" where
  "mono_clock t [] = True"
| "mono_clock t (CallCanAuth now now' ip # cs) = (t \<le> now \<and> now \<le> now' \<and> mono_clock now' cs)"
| "mono_clock t (CallCleanup now # cs) = (t \<le> now \<and> mono_clock now cs)"

fun accepted :: "RateLimiter \<Rightarrow> rl_call list \<Rightarrow> string \<Rightarrow> time list" where
  "accepted rl [] ip = []"
| "accepted rl (CallCanAuth now now' ip' # cs) ip =
     (if fst (canAuth now now' ip' rl) \<and> ip' = ip then [now'] else [])
     @ accepted (snd (canAuth now now' ip' rl)) cs ip"
| "accepted rl (CallCleanup now # cs) ip = accepted (cleanup now rl) cs ip"

definition in_window :: "time \<Rightarrow> time \<Rightarrow> bool" where
  "in_window a t = (a < t \<and> t \<le> a + minute)"

text \<open>The limiter after a history of calls.\<close>

fun after_calls :: "RateLimiter \<Rightarrow> rl_call list \<Rightarrow> RateLimiter" where
  "after_calls rl [] = rl"
| "after_calls rl (CallCanAuth now now' ip # cs) = after_calls (snd (canAuth now now' ip rl)) cs"
| "after_calls rl (CallCleanup now # cs) = after_calls (cleanup now rl) cs"

section \<open>The hub and the connection handler (cmd/server/main.go)\<close>

subsection \<open>Broadcast\<close>

text \<open>
  The state after a broadcast pass over the clients of \<open>order\<close>, in closed form: a queue with
  room gets the message, a full queue is closed and its client deleted.
\<close>

definition has_room :: "chan \<Rightarrow> bool" where
  "has_room ch = (length (buf ch) < chan_cap)"

definition after_broadcast :: "cid list \<Rightarrow> bytes \<Rightarrow> 'db server \<Rightarrow> 'db server" where
  "after_broadcast order m s =
     s\<lparr>send := (\<lambda>c. if c \<in> set order
                     then (if has_room (send s c) then (send s c)\<lparr>buf := buf (send s c) @ [m]\<rparr>
                           else (send s c)\<lparr>closed := True\<rparr>)
                     else send s c),
       hub_clients := filter (\<lambda>kv. \<not> (fst kv \<in> set order \<and> \<not> has_room (send s (fst kv))))
                        (hub_clients s)\<rparr>"

section \<open>The registry\<close>

subsection \<open>What a reader turn leaves alone\<close>

text \<open>
  A turn of the reader of client \<open>c\<close> allocates nothing, leaves the writers and the
  other readers as they are, registers nobody but \<open>c\<close>, and leaves the queue of every
  other client that is not registered untouched.
\<close>

definition step_frame :: "cid \<Rightarrow> 'db server \<Rightarrow> 'db server \<Rightarrow> bool" where
  "step_frame c s s' =
     (next_client s' = next_client s \<and> writer_done s' = writer_done s
      \<and> conn_closes s' = conn_closes s \<and> clientIP s' = clientIP s
      \<and> (\<forall>k. k \<noteq> c \<longrightarrow> reader_done s' k = reader_done s k \<and> userID s' k = userID s k
                       \<and> parked s' k = parked s k)
      \<and> registered s' \<subseteq> insert c (registered s)
      \<and> (\<forall>k. k \<noteq> c \<and> k \<notin> registered s \<longrightarrow> send s' k = send s k)
      \<and> (distinct (map fst (hub_clients s)) \<longrightarrow> distinct (map fst (hub_clients s'))))"

subsection \<open>Events\<close>

text \<open>
  The state a turn of the reader ends in: the state it returns, or the state at its own
  panic. A panic of the hub leaves none.
\<close>

fun lands :: "'db fault + 'db server \<Rightarrow> 'db server \<Rightarrow> bool" where
  "lands (Inr s) s' = (s' = s)"
| "lands (Inl (HandlerPanic p s)) s' = (s' = s)"
| "lands (Inl (HubPanic p)) s' = False"

text \<open>A connection whose reader has returned while it was not registered stays out.\<close>

definition left_unregistered :: "cid \<Rightarrow> 'db server \<Rightarrow> bool" where
  "left_unregistered c s = (c < next_client s \<and> reader_done s c \<and> c \<notin> registered s)"

subsection \<open>Registered means authenticated\<close>

text \<open>User ids are database keys from a serial column: a successful \<open>handleAuth\<close> returns none that is 0.\<close>

definition ids_nonzero :: "'db env \<Rightarrow> bool" where
  "ids_nonzero env =
     (\<forall>p d uid uname d1. handleAuth env p d = (Inr (uid, uname), d1) \<longrightarrow> uid \<noteq> 0)"

definition registered_ok :: "'db server \<Rightarrow> bool" where
  "registered_ok s = (\<forall>k\<in>registered s. userID s k \<noteq> 0 \<and> k < next_client s)"

subsection \<open>A removed client that is registered again\<close>

text \<open>
  A client that is in the registry although its reader has returned and its queue is
  closed: nothing unregisters it any more, and nothing can be sent to it.
\<close>

definition orphaned :: "cid \<Rightarrow> 'db server \<Rightarrow> bool" where
  "orphaned c s =
     (c < next_client s \<and> c \<in> registered s \<and> reader_done s c \<and> closed (send s c))"

section \<open>The end of a connection\<close>

text \<open>
  A connection whose reader returned without unregistering while its queue was open and
  empty: nobody holds the queue any more, and the writer waits on it.
\<close>

definition abandoned :: "cid \<Rightarrow> 'db server \<Rightarrow> bool" where
  "abandoned c s =
     (c < next_client s \<and> c \<notin> registered s \<and> reader_done s c \<and> \<not> writer_done s c
      \<and> send s c = make_chan \<and> conn_closes s c = 0)"

section \<open>The client's reconnect cycle (cmd/client/main.go)\<close>

text \<open>The two ways the cycle starts: the login form dials, or an open connection's read fails.\<close>

definition from_login :: "nat \<Rightarrow> (nat \<Rightarrow> bool) \<Rightarrow> model \<Rightarrow> (model \<times> cmd \<times> nat \<times> int list) option" where
  "from_login fuel con m = drive fuel con m (ConnectToServer (serverURL m)) 0 []"

definition from_drop :: "nat \<Rightarrow> (nat \<Rightarrow> bool) \<Rightarrow> model \<Rightarrow> (model \<times> cmd \<times> nat \<times> int list) option" where
  "from_drop fuel con m =
     (let (m', c') = Update m (WsError ''read failed'') in drive fuel con m' c' 0 [])"

text \<open>The model after a failure that is retried.\<close>

definition failed :: "model \<Rightarrow> model" where
  "failed m = m\<lparr>connected := False, conn := None, reconnectCount := reconnectCount m + 1,
                isReconnecting := True\<rparr>"

section \<open>The client's saved session (internal/client/session)\<close>

subsection \<open>Laws of the libraries\<close>

definition gcm_correct :: "session_env \<Rightarrow> bool" where
  "gcm_correct env =
     (\<forall>key nonce plaintext. length nonce = NonceSize \<longrightarrow>
        unseal env key nonce (seal env key nonce plaintext) = Some plaintext)"

definition b64_correct :: "session_env \<Rightarrow> bool" where
  "b64_correct env = (\<forall>b. b64_decode env (b64_encode env b) = Some b)"

definition sha256_size :: "session_env \<Rightarrow> bool" where
  "sha256_size env = (\<forall>x. length (sha256 env x) = 32)"

chapter \<open>Sample inputs\<close>

section \<open>The hub and the connection handler (cmd/server/main.go)\<close>

subsection \<open>A sample environment\<close>

text \<open>
  A concrete environment on which the model is run: the database is the list of
  (user name, password) rows, a user's id is its row number counted from 1, a frame is
  written \<open>type:payload\<close>, and an auth payload is written \<open>name,password\<close>.
\<close>

definition sample_marshal :: "resp \<Rightarrow> bytes" where
  "sample_marshal r =
     (case r of
        Resp_auth_error e \<Rightarrow> ''auth_error:'' @ e
      | Resp_auth_success uid name convs \<Rightarrow> ''auth_success:'' @ name
      | Resp_typing conv uid name \<Rightarrow> ''typing:'' @ name
      | Resp_user_check_result name exists \<Rightarrow>
          ''user_check_result:'' @ name @ (if exists then '':true'' else '':false'')
      | Resp_error e \<Rightarrow> ''error:'' @ e
      | Resp_conversation_created conv \<Rightarrow> ''conversation_created''
      | Resp_messages conv msgs \<Rightarrow> ''messages''
      | Resp_new_message msg \<Rightarrow> ''new_message:'' @ ms_Content msg
      | Resp_conversations convs \<Rightarrow> ''conversations'')"

definition sample_env :: "(string \<times> string) list env" where
  "sample_env =
     \<lparr> unmarshal_msg = (\<lambda>b. if CHR '':'' \<in> set b
          then Some \<lparr>Type = takeWhile (\<lambda>x. x \<noteq> CHR '':'') b,
                     Payload = tl (dropWhile (\<lambda>x. x \<noteq> CHR '':'') b)\<rparr>
          else None),
       decode_auth = (\<lambda>p. \<lparr>Username = takeWhile (\<lambda>x. x \<noteq> CHR '','') p,
                           Password = tl (dropWhile (\<lambda>x. x \<noteq> CHR '','') p),
                           Action = ''login''\<rparr>),
       decode_conversation_id = (\<lambda>p. int (length p)),
       decode_check_user = (\<lambda>p. p),
       decode_create = (\<lambda>p. \<lparr>cc_Name = p, cc_IsGroup = False, cc_Usernames = []\<rparr>),
       decode_send = (\<lambda>p. \<lparr>sm_ConversationID = 1, sm_Content = p\<rparr>),
       decode_id_name = (\<lambda>p. (1, p)),
       marshal = sample_marshal,
       handleAuth = (\<lambda>p d.
          if (Username p, Password p) \<in> set d
          then (Inr (1 + int (length (takeWhile (\<lambda>u. u \<noteq> (Username p, Password p)) d)),
                     Username p), d)
          else (Inl ''invalid credentials'', d)),
       checkUserExists = (\<lambda>name d.
          ((name \<in> fst ` set d, 1 + int (length (takeWhile (\<lambda>u. fst u \<noteq> name) d))), d)),
       createConversation = (\<lambda>uid p d. (Inl ''no conversations'', d)),
       getUserConversations = (\<lambda>uid d. ([], d)),
       updateReadReceipt = (\<lambda>uid conv d. d),
       getConversationMessages = (\<lambda>conv limit d. ([], d)),
       saveMessage = (\<lambda>conv uid content d.
          (Inr \<lparr>ms_ID = 1, ms_ConversationID = conv, ms_SenderID = uid,
                 ms_SenderUsername = [], ms_Content = content, ms_CreatedAt = 0\<rparr>, d)),
       addParticipant = (\<lambda>conv name d. (None, d)),
       renameConversation = (\<lambda>conv name d. d),
       leaveConversation = (\<lambda>uid conv d. d) \<rparr>"

definition sample_split :: "string \<Rightarrow> string \<times> string" where
  "sample_split a = (takeWhile (\<lambda>x. x \<noteq> CHR '':'') a, tl (dropWhile (\<lambda>x. x \<noteq> CHR '':'') a))"

definition sample_request :: "string \<Rightarrow> Request" where
  "sample_request xff =
     \<lparr> Header_Get = (\<lambda>h. if h = ''X-Forwarded-For'' then xff else []),
       RemoteAddr = ''192.0.2.7:40000'' \<rparr>"

definition sample_server :: "(string \<times> string) list server" where
  "sample_server =
     init_server (newRateLimiter (\<lambda>_. []) (\<lambda>_. None)) [(''alice'', ''pw1''), (''bob'', ''pw2'')]"

section \<open>The registry\<close>

subsection \<open>Runs of the sample server\<close>

definition sample_hub_run :: "hub_op list \<Rightarrow> (string \<times> string) list server" where
  "sample_hub_run ops = projr (hub_run ops sample_server)"

definition sample_run :: "event list \<Rightarrow> (string \<times> string) list server" where
  "sample_run es = projr (sys_run sample_split sample_env es sample_server)"

definition ev_accept :: event where
  "ev_accept = EvAccept (sample_request ''10.1.1.1, 10.2.2.2'') True"

definition ev_auth :: event where
  "ev_auth = EvReader 0 1 1 (ReadMessage ''auth:alice,pw1'')"

definition ev_drop :: event where
  "ev_drop = EvReader 0 2 2 ReadError"

subsection \<open>A client that overflows and authenticates again\<close>

text \<open>
  Client 0 authenticates and sends \<open>typing\<close> frames while its writer takes no turn (its
  peer does not read): the broadcasts fill its queue, the next one removes it. It then
  sends \<open>auth\<close> again on the same connection. A second client connects, authenticates
  and sends a \<open>typing\<close> frame.
\<close>

definition ev_typing :: event where
  "ev_typing = EvReader 0 2 2 (ReadMessage ''typing:x'')"

definition ev_reauth :: event where
  "ev_reauth = EvReader 0 3 3 (ReadMessage ''auth:alice,pw1'')"

definition flood :: "event list" where
  "flood = [ev_accept, ev_auth] @ replicate 256 ev_typing"

definition newcomer :: "event list" where
  "newcomer = [EvAccept (sample_request []) True, EvReader 1 4 4 (ReadMessage ''auth:bob,pw2'')]"

definition crash_run :: "event list" where
  "crash_run = flood @ ev_reauth # newcomer @ [EvReader 1 5 5 (ReadMessage ''typing:x'')]"

text \<open>
  The states of that run: after the first \<open>auth\<close>, with the queue full, after the
  removal, after the second \<open>auth\<close>, and after the second client has authenticated.
\<close>

definition sample_authed :: "(string \<times> string) list server" where
  "sample_authed =
     \<lparr> hub_clients = [(0, True)], userID = (\<lambda>_. 0)(0 := 1), username = (\<lambda>_. [])(0 := ''alice''),
       send = (\<lambda>_. make_chan)(0 := \<lparr>buf = [''auth_success:alice''], closed = False\<rparr>),
       limiter = \<lparr>connections = [''10.1.1.1, 10.2.2.2'' \<mapsto> 1],
                  authAttempts = [''10.1.1.1, 10.2.2.2'' \<mapsto> [1]], maxConns = 10, maxAuth = 5\<rparr>,
       db = [(''alice'', ''pw1''), (''bob'', ''pw2'')],
       clientIP = (\<lambda>_. [])(0 := ''10.1.1.1, 10.2.2.2''),
       reader_done = (\<lambda>_. False), writer_done = (\<lambda>_. False), conn_closes = (\<lambda>_. 0),
       parked = (\<lambda>_. None), next_client = 1 \<rparr>"

definition sample_full :: "(string \<times> string) list server" where
  "sample_full = sample_authed\<lparr>send := (\<lambda>_. make_chan)
     (0 := \<lparr>buf = ''auth_success:alice'' # replicate 255 ''typing:alice'', closed = False\<rparr>)\<rparr>"

definition sample_removed :: "(string \<times> string) list server" where
  "sample_removed = sample_authed\<lparr>hub_clients := [], send := (\<lambda>_. make_chan)
     (0 := \<lparr>buf = ''auth_success:alice'' # replicate 255 ''typing:alice'', closed = True\<rparr>)\<rparr>"

definition sample_orphan :: "(string \<times> string) list server" where
  "sample_orphan = sample_removed\<lparr>hub_clients := [(0, True)],
     limiter := \<lparr>connections = [''10.1.1.1, 10.2.2.2'' \<mapsto> 1],
                 authAttempts = [''10.1.1.1, 10.2.2.2'' \<mapsto> [1, 3]], maxConns = 10, maxAuth = 5\<rparr>,
     reader_done := (\<lambda>_. False)(0 := True)\<rparr>"

definition sample_two :: "(string \<times> string) list server" where
  "sample_two = sample_orphan\<lparr>hub_clients := [(0, True), (1, True)],
     userID := (\<lambda>_. 0)(0 := 1, 1 := 2), username := (\<lambda>_. [])(0 := ''alice'', 1 := ''bob''),
     send := (\<lambda>_. make_chan)
       (0 := \<lparr>buf = ''auth_success:alice'' # replicate 255 ''typing:alice'', closed = True\<rparr>,
        1 := \<lparr>buf = [''auth_success:bob''], closed = False\<rparr>),
     limiter := \<lparr>connections = [''10.1.1.1, 10.2.2.2'' \<mapsto> 1, ''192.0.2.7'' \<mapsto> 1],
                 authAttempts = [''10.1.1.1, 10.2.2.2'' \<mapsto> [1, 3], ''192.0.2.7'' \<mapsto> [4]],
                 maxConns = 10, maxAuth = 5\<rparr>,
     clientIP := (\<lambda>_. [])(0 := ''10.1.1.1, 10.2.2.2'', 1 := ''192.0.2.7''),
     next_client := 2\<rparr>"

section \<open>The client's reconnect cycle (cmd/client/main.go)\<close>

definition sample_model :: model where
  "sample_model =
     \<lparr> conn = None, serverURL = ''ws://localhost:3567/ws'', connected = False,
       isReconnecting = False, authAction = ''login'', usernameInput = ''alice'',
       passwordInput = ''pw1'', isLoading = True, savedSession = None, pendingPassword = ''pw1'',
       err = None, reconnectCount = 0 \<rparr>"

definition sample_connected :: model where
  "sample_connected = sample_model\<lparr>conn := Some 0, connected := True, isLoading := False\<rparr>"

section \<open>The client's saved session (internal/client/session)\<close>

subsection \<open>A sample environment for the session file\<close>

text \<open>
  Stand-ins for the libraries, on which the session functions are run: the seal of a
  text is the reversed text followed by a 16-byte tag taken from the key, base64 is a
  prefix, a session is written \<open>{url|name|password}\<close>.
\<close>

definition sample_tag :: "bytes \<Rightarrow> bytes" where
  "sample_tag key = take 16 (key @ ''tttttttttttttttt'')"

definition sample_unmarshal :: "bytes \<Rightarrow> Session option" where
  "sample_unmarshal b =
     (if b = [] \<or> hd b \<noteq> CHR ''{'' \<or> last b \<noteq> CHR ''}'' then None
      else let body = butlast (tl b);
               rest = drop 1 (dropWhile (\<lambda>c. c \<noteq> CHR ''|'') body)
           in Some \<lparr>ServerURL = takeWhile (\<lambda>c. c \<noteq> CHR ''|'') body,
                    ss_Username = takeWhile (\<lambda>c. c \<noteq> CHR ''|'') rest,
                    ss_Password = drop 1 (dropWhile (\<lambda>c. c \<noteq> CHR ''|'') rest)\<rparr>)"

definition sample_session_env :: session_env where
  "sample_session_env =
     \<lparr> home_dir = Some ''/home/u'',
       hostname = ''host'',
       path_join = (\<lambda>ps. foldr (\<lambda>a b. if b = [] then a else a @ ''/'' @ b) ps []),
       trim_space = filter (\<lambda>c. c \<noteq> CHR '' '' \<and> c \<noteq> CHR 0x0A),
       sha256 = (\<lambda>x. take 32 (x @ ''00000000000000000000000000000000'')),
       seal = (\<lambda>key nonce plaintext. rev plaintext @ sample_tag key),
       unseal = (\<lambda>key nonce c.
          if 16 \<le> length c \<and> drop (length c - 16) c = sample_tag key
          then Some (rev (take (length c - 16) c)) else None),
       b64_encode = (\<lambda>b. ''b64:'' @ b),
       b64_decode = (\<lambda>s. if take 4 s = ''b64:'' then Some (drop 4 s) else None),
       json_marshal = (\<lambda>s. Some (''{'' @ ServerURL s @ ''|'' @ ss_Username s @ ''|''
                                  @ ss_Password s @ ''}'')),
       json_unmarshal = sample_unmarshal,
       mkdir_ok = (\<lambda>p. True),
       write_ok = (\<lambda>p. True) \<rparr>"

definition sample_world :: "bytes option \<Rightarrow> world" where
  "sample_world session_file =
     \<lparr> files = [''/etc/machine-id'' \<mapsto> ''abc'']
                 (''/home/u/.config/cldzmsg/default/session.json'' := session_file),
       entropy = ''0123456789abcdef'' \<rparr>"

chapter \<open>Properties\<close>

section \<open>Admission: connection ceiling\<close>

lemma conn_count_addConnection:
  "conn_count (addConnection ip rl) ip' = (if ip' = ip then conn_count rl ip + 1 else conn_count rl ip')"
  by (simp add: addConnection_def conn_count_def)








section \<open>Authentication attempts: the sliding window\<close>

lemma canAuth_fst:
  "fst (canAuth now now' ip rl) =
     (int (length (after_cutoff (now - minute) (attempts_of rl ip))) < maxAuth rl)"
  by (simp add: canAuth_def Let_def)

lemma canAuth_attempts:
  "attempts_of (snd (canAuth now now' ip rl)) ip' =
     (if ip' = ip
      then after_cutoff (now - minute) (attempts_of rl ip)
           @ (if fst (canAuth now now' ip rl) then [now'] else [])
      else attempts_of rl ip')"
  by (simp add: canAuth_def Let_def attempts_of_def)

lemma canAuth_maxAuth: "maxAuth (snd (canAuth now now' ip rl)) = maxAuth rl"
  by (simp add: canAuth_def Let_def)

lemma canAuth_connections: "connections (snd (canAuth now now' ip rl)) = connections rl"
  by (simp add: canAuth_def Let_def)

lemma cleanup_attempts:
  "attempts_of (cleanup now rl) ip = after_cutoff (now - minute) (attempts_of rl ip)"
  by (simp add: cleanup_def Let_def attempts_of_def after_cutoff_def split: option.splits)

lemma cleanup_maxAuth: "maxAuth (cleanup now rl) = maxAuth rl"
  by (simp add: cleanup_def Let_def)

lemma accepted_ge: "mono_clock t0 cs \<Longrightarrow> x \<in> set (accepted rl cs ip) \<Longrightarrow> t0 \<le> x"
proof (induction cs arbitrary: t0 rl)
  case Nil
  then show ?case by simp
next
  case (Cons c cs)
  show ?case
  proof (cases c)
    case (CallCanAuth now now' ip')
    with Cons.prems have m: "t0 \<le> now" "now \<le> now'" "mono_clock now' cs" by simp_all
    from Cons.prems(2) CallCanAuth
    have "x = now' \<or> x \<in> set (accepted (snd (canAuth now now' ip' rl)) cs ip)"
      by (auto split: if_splits)
    then show ?thesis
    proof
      assume "x = now'" with m show ?thesis by simp
    next
      assume "x \<in> set (accepted (snd (canAuth now now' ip' rl)) cs ip)"
      from Cons.IH [OF m(3) this] m show ?thesis by simp
    qed
  next
    case (CallCleanup now)
    with Cons.prems have m: "t0 \<le> now" "mono_clock now cs" by simp_all
    from Cons.prems(2) CallCleanup have "x \<in> set (accepted (cleanup now rl) cs ip)" by simp
    from Cons.IH [OF m(2) this] m show ?thesis by simp
  qed
qed

lemma prune_window:
  assumes fut: "\<forall>y\<in>set fut. now \<le> y"
    and S: "int (length (filter (in_window a) S)) \<le> M"
    and R: "int (length (filter (in_window a) (after_cutoff (now - minute) S @ fut))) \<le> M"
  shows "int (length (filter (in_window a) (S @ fut))) \<le> M"
proof (cases "\<exists>x\<in>set S. x \<le> now - minute \<and> in_window a x")
  case True
  then obtain x where x: "x \<le> now - minute" "a < x" by (auto simp: in_window_def)
  have "\<forall>y\<in>set fut. \<not> in_window a y"
  proof
    fix y assume "y \<in> set fut"
    with fut have "now \<le> y" by simp
    with x show "\<not> in_window a y" by (simp add: in_window_def)
  qed
  then have "filter (in_window a) fut = []" by (simp add: filter_empty_conv)
  with S show ?thesis by simp
next
  case False
  then have "filter (in_window a) (after_cutoff (now - minute) S) = filter (in_window a) S"
    unfolding after_cutoff_def filter_filter
    by (intro filter_cong) auto
  with R show ?thesis by simp
qed

lemma after_cutoff_window_le:
  "length (filter (in_window a) (after_cutoff c S)) \<le> length (filter (in_window a) S)"
  by (induction S) (simp_all add: after_cutoff_def)

lemma after_cutoff_window_bound:
  assumes "int (length (filter (in_window a) S)) \<le> M"
  shows "int (length (filter (in_window a) (after_cutoff c S))) \<le> M"
  using assms after_cutoff_window_le [of a c S] by linarith

lemma window_bound_gen:
  assumes "mono_clock t0 calls"
    and "\<forall>x\<in>set (attempts_of rl ip). x \<le> t0"
    and "\<forall>a. int (length (filter (in_window a) (attempts_of rl ip))) \<le> maxAuth rl"
  shows "int (length (filter (in_window a) (attempts_of rl ip @ accepted rl calls ip))) \<le> maxAuth rl"
  using assms
proof (induction calls arbitrary: t0 rl)
  case Nil
  then show ?case by simp
next
  case (Cons c cs)
  let ?S = "attempts_of rl ip"
  show ?case
  proof (cases c)
    case (CallCleanup now)
    let ?rl' = "cleanup now rl"
    from Cons.prems(1) CallCleanup have m: "t0 \<le> now" "mono_clock now cs" by simp_all
    have S': "attempts_of ?rl' ip = after_cutoff (now - minute) ?S" by (rule cleanup_attempts)
    have le: "\<forall>x\<in>set (attempts_of ?rl' ip). x \<le> now"
      using Cons.prems(2) m(1) by (auto simp: S' after_cutoff_def)
    have wb: "\<forall>a. int (length (filter (in_window a) (attempts_of ?rl' ip))) \<le> maxAuth ?rl'"
    proof
      fix b
      from Cons.prems(3) have "int (length (filter (in_window b) ?S)) \<le> maxAuth rl" by blast
      then show "int (length (filter (in_window b) (attempts_of ?rl' ip))) \<le> maxAuth ?rl'"
        unfolding S' cleanup_maxAuth by (rule after_cutoff_window_bound)
    qed
    from Cons.IH [OF m(2) le wb]
    have R: "int (length (filter (in_window a) (after_cutoff (now - minute) ?S @ accepted ?rl' cs ip))) \<le> maxAuth rl"
      by (simp add: S' cleanup_maxAuth)
    have fut: "\<forall>y\<in>set (accepted ?rl' cs ip). now \<le> y"
      using accepted_ge [OF m(2)] by blast
    from prune_window [OF fut _ R] Cons.prems(3) CallCleanup show ?thesis by simp
  next
    case (CallCanAuth now now' ip')
    let ?rl' = "snd (canAuth now now' ip' rl)"
    from Cons.prems(1) CallCanAuth have m: "t0 \<le> now" "now \<le> now'" "mono_clock now' cs" by simp_all
    have fut: "\<forall>y\<in>set (accepted ?rl' cs ip). now' \<le> y"
      using accepted_ge [OF m(3)] by blast
    show ?thesis
    proof (cases "ip' = ip")
      case False
      then have S': "attempts_of ?rl' ip = ?S" by (simp add: canAuth_attempts)
      have le: "\<forall>x\<in>set (attempts_of ?rl' ip). x \<le> now'"
        using Cons.prems(2) m by (auto simp: S')
      have wb: "\<forall>a. int (length (filter (in_window a) (attempts_of ?rl' ip))) \<le> maxAuth ?rl'"
        using Cons.prems(3) by (simp add: S' canAuth_maxAuth)
      from Cons.IH [OF m(3) le wb] False CallCanAuth show ?thesis
        by (simp add: S' canAuth_maxAuth)
    next
      case True
      let ?r = "snd (canAuth now now' ip rl)"
      let ?new = "if fst (canAuth now now' ip rl) then [now'] else []"
      let ?R = "after_cutoff (now - minute) ?S"
      have S': "attempts_of ?r ip = ?R @ ?new"
        by (simp add: canAuth_attempts)
      have fut: "\<forall>y\<in>set (accepted ?r cs ip). now' \<le> y"
        using accepted_ge [OF m(3)] by blast
      have le: "\<forall>x\<in>set (attempts_of ?r ip). x \<le> now'"
        using Cons.prems(2) m by (auto simp: S' after_cutoff_def)
      have wb: "\<forall>a. int (length (filter (in_window a) (attempts_of ?r ip))) \<le> maxAuth ?r"
      proof
        fix b
        show "int (length (filter (in_window b) (attempts_of ?r ip))) \<le> maxAuth ?r"
        proof (cases "fst (canAuth now now' ip rl)")
          case False
          from Cons.prems(3) have "int (length (filter (in_window b) ?S)) \<le> maxAuth rl" by blast
          then have "int (length (filter (in_window b) ?R)) \<le> maxAuth rl"
            by (rule after_cutoff_window_bound)
          with False show ?thesis by (simp add: S' canAuth_maxAuth)
        next
          case acc: True
          then have "int (length ?R) < maxAuth rl"
            by (simp add: canAuth_fst)
          moreover have "length (filter (in_window b) (?R @ [now'])) \<le> length (?R @ [now'])"
            by (rule length_filter_le)
          ultimately have "int (length (filter (in_window b) (?R @ [now']))) \<le> maxAuth rl"
            by simp
          with acc show ?thesis by (simp only: S' canAuth_maxAuth if_True)
        qed
      qed
      from Cons.IH [OF m(3) le wb]
      have "int (length (filter (in_window a) (attempts_of ?r ip @ accepted ?r cs ip))) \<le> maxAuth ?r" .
      then have R: "int (length (filter (in_window a) (?R @ (?new @ accepted ?r cs ip)))) \<le> maxAuth rl"
        by (simp only: S' canAuth_maxAuth append_assoc)
      have fut': "\<forall>y\<in>set (?new @ accepted ?r cs ip). now \<le> y"
        using fut m by auto
      have S0: "int (length (filter (in_window a) ?S)) \<le> maxAuth rl"
        using Cons.prems(3) by blast
      have "int (length (filter (in_window a) (?S @ (?new @ accepted ?r cs ip)))) \<le> maxAuth rl"
        by (rule prune_window [OF fut' S0 R])
      moreover have "accepted rl (c # cs) ip = ?new @ accepted ?r cs ip"
        using True CallCanAuth by simp
      ultimately show ?thesis by simp
    qed
  qed
qed

lemma canAuth_age_out:
  assumes full: "int (length (after_cutoff (now - minute) (attempts_of rl ip))) = maxAuth rl"
    and pos: "0 < maxAuth rl"
    and aged: "hd (after_cutoff (now - minute) (attempts_of rl ip)) \<le> now2 - minute"
  shows "\<not> fst (canAuth now now' ip rl)"
    and "fst (canAuth now2 now2' ip (snd (canAuth now now' ip rl)))"
proof -
  let ?R = "after_cutoff (now - minute) (attempts_of rl ip)"
  show rej: "\<not> fst (canAuth now now' ip rl)"
    using full by (simp add: canAuth_fst)
  from full pos obtain x xs where R: "?R = x # xs" by (cases ?R) auto
  with aged have "x \<le> now2 - minute" by simp
  then have "after_cutoff (now2 - minute) ?R = after_cutoff (now2 - minute) xs"
    by (subst R) (simp add: after_cutoff_def)
  moreover have "length (after_cutoff (now2 - minute) xs) \<le> length xs"
    by (simp add: after_cutoff_def)
  ultimately have "int (length (after_cutoff (now2 - minute) ?R)) < maxAuth rl"
    using full R by simp
  with rej show "fst (canAuth now2 now2' ip (snd (canAuth now now' ip rl)))"
    by (simp add: canAuth_fst canAuth_attempts canAuth_maxAuth)
qed

lemma canAuth_authAttempts:
  "authAttempts (snd (canAuth now now' ip rl)) =
     (authAttempts rl)(ip \<mapsto> after_cutoff (now - minute) (attempts_of rl ip)
        @ (if fst (canAuth now now' ip rl) then [now'] else []))"
  by (simp add: canAuth_def Let_def attempts_of_def)

lemma canAuth_maxConns: "maxConns (snd (canAuth now now' ip rl)) = maxConns rl"
  by (simp add: canAuth_def Let_def)

lemma after_cutoff_twice: "k \<le> K \<Longrightarrow> after_cutoff K (after_cutoff k S) = after_cutoff K S"
  unfolding after_cutoff_def filter_filter by (intro filter_cong) auto

lemma after_cutoff_Nil: "after_cutoff K [] = []"
  by (simp add: after_cutoff_def)

lemma after_cutoff_append: "after_cutoff K (S @ T) = after_cutoff K S @ after_cutoff K T"
  by (simp add: after_cutoff_def)

lemma mono_clock_snoc:
  "mono_clock t0 (cs @ [CallCanAuth now now' ip]) \<Longrightarrow> t0 \<le> now"
proof (induction cs arbitrary: t0)
  case Nil
  then show ?case by simp
next
  case (Cons c cs)
  then show ?case by (cases c) fastforce+
qed

lemma after_calls_maxAuth: "maxAuth (after_calls rl cs) = maxAuth rl"
proof (induction cs arbitrary: rl)
  case Nil
  show ?case by simp
next
  case (Cons c cs)
  then show ?case by (cases c) (simp_all add: canAuth_maxAuth cleanup_maxAuth)
qed

lemma after_calls_recent:
  assumes "mono_clock t0 (cs @ [CallCanAuth now now' ip])"
  shows "after_cutoff (now - minute) (attempts_of (after_calls rl cs) ip)
       = after_cutoff (now - minute) (attempts_of rl ip @ accepted rl cs ip)"
  using assms
proof (induction cs arbitrary: t0 rl)
  case Nil
  show ?case by simp
next
  case (Cons c cs)
  show ?case
  proof (cases c)
    case (CallCleanup n)
    with Cons.prems have m: "mono_clock n (cs @ [CallCanAuth now now' ip])" by simp
    from mono_clock_snoc [OF m] have le: "n - minute \<le> now - minute" by simp
    from Cons.IH [OF m, of "cleanup n rl"] CallCleanup show ?thesis
      by (simp add: cleanup_attempts after_cutoff_append after_cutoff_twice [OF le] after_cutoff_Nil)
  next
    case (CallCanAuth n n' ip')
    with Cons.prems have m: "mono_clock n' (cs @ [CallCanAuth now now' ip])" and nn: "n \<le> n'"
      by simp_all
    from mono_clock_snoc [OF m] nn have le: "n - minute \<le> now - minute" by simp
    from Cons.IH [OF m, of "snd (canAuth n n' ip' rl)"] CallCanAuth show ?thesis
      by (simp add: canAuth_attempts after_cutoff_append after_cutoff_twice [OF le] after_cutoff_Nil)
  qed
qed

lemma after_calls_decision:
  assumes "mono_clock t0 (cs @ [CallCanAuth now now' ip])"
  shows "fst (canAuth now now' ip (after_calls rl cs))
       = (int (length (after_cutoff (now - minute) (attempts_of rl ip @ accepted rl cs ip)))
            < maxAuth rl)"
  by (simp add: canAuth_fst after_calls_recent [OF assms] after_calls_maxAuth)

text \<open>
  Claim C5. \<open>canAuth\<close> returns true exactly when fewer than \<open>maxAuth\<close> (5 unless
  configured) recorded attempts of the address are newer than one minute, and then
  appends the new timestamp; otherwise it returns false and keeps only the attempts
  already in the window, adding nothing. The call changes the entry of its own address
  and nothing else: the entries of all other addresses, the connection counts and the
  two ceilings stay as they were. Over any history of calls, from any addresses, on a
  limiter with no attempts of the address, the accepted attempts of the address that
  fall in any window \<open>(a, a + minute]\<close> number at most \<open>maxAuth\<close>, and an attempt is
  accepted exactly when fewer than \<open>maxAuth\<close> of the address's own accepted attempts
  are newer than one minute: attempts from other addresses and rejected attempts do not
  count. When the window is full and the oldest attempt in it has aged out at a later
  reading, the attempt at that reading is accepted.
\<close>

theorem canAuth_window:
  "fst (canAuth now now' ip rl) =
     (int (length (after_cutoff (now - minute) (attempts_of rl ip))) < maxAuth rl)
   \<and> attempts_of (snd (canAuth now now' ip rl)) ip =
       after_cutoff (now - minute) (attempts_of rl ip)
       @ (if fst (canAuth now now' ip rl) then [now'] else [])
   \<and> authAttempts (snd (canAuth now now' ip rl)) =
       (authAttempts rl)(ip \<mapsto> after_cutoff (now - minute) (attempts_of rl ip)
          @ (if fst (canAuth now now' ip rl) then [now'] else []))
   \<and> connections (snd (canAuth now now' ip rl)) = connections rl
   \<and> maxConns (snd (canAuth now now' ip rl)) = maxConns rl
   \<and> maxAuth (snd (canAuth now now' ip rl)) = maxAuth rl
   \<and> maxAuth (newRateLimiter (\<lambda>_. []) atoi) = 5
   \<and> (mono_clock t0 calls \<and> attempts_of rl ip = [] \<and> 0 \<le> maxAuth rl \<longrightarrow>
        int (length (filter (in_window a) (accepted rl calls ip))) \<le> maxAuth rl)
   \<and> (mono_clock t1 (hist @ [CallCanAuth now now' ip]) \<longrightarrow>
        fst (canAuth now now' ip (after_calls rl hist))
          = (int (length (after_cutoff (now - minute) (attempts_of rl ip @ accepted rl hist ip)))
               < maxAuth rl))
   \<and> (int (length (after_cutoff (now - minute) (attempts_of rl ip))) = maxAuth rl
        \<and> 0 < maxAuth rl
        \<and> hd (after_cutoff (now - minute) (attempts_of rl ip)) \<le> now2 - minute \<longrightarrow>
        \<not> fst (canAuth now now' ip rl)
        \<and> fst (canAuth now2 now2' ip (snd (canAuth now now' ip rl))))"
proof -
  have w: "int (length (filter (in_window a) (accepted rl calls ip))) \<le> maxAuth rl"
    if "mono_clock t0 calls" "attempts_of rl ip = []" "0 \<le> maxAuth rl"
    using window_bound_gen [of t0 calls rl ip a] that by simp
  have d: "maxAuth (newRateLimiter (\<lambda>_. []) atoi) = 5"
    by (simp add: newRateLimiter_def env_int_def)
  have e: "\<not> fst (canAuth now now' ip rl)
      \<and> fst (canAuth now2 now2' ip (snd (canAuth now now' ip rl)))"
    if "int (length (after_cutoff (now - minute) (attempts_of rl ip))) = maxAuth rl"
      "0 < maxAuth rl"
      "hd (after_cutoff (now - minute) (attempts_of rl ip)) \<le> now2 - minute"
    using canAuth_age_out [OF that] by simp
  have s1: "fst (canAuth now now' ip rl) =
     (int (length (after_cutoff (now - minute) (attempts_of rl ip))) < maxAuth rl)"
    by (rule canAuth_fst)
  have s2: "attempts_of (snd (canAuth now now' ip rl)) ip =
       after_cutoff (now - minute) (attempts_of rl ip)
       @ (if fst (canAuth now now' ip rl) then [now'] else [])"
    by (simp add: canAuth_attempts)
  have s3: "authAttempts (snd (canAuth now now' ip rl)) =
       (authAttempts rl)(ip \<mapsto> after_cutoff (now - minute) (attempts_of rl ip)
          @ (if fst (canAuth now now' ip rl) then [now'] else []))"
    by (rule canAuth_authAttempts)
  have s4: "connections (snd (canAuth now now' ip rl)) = connections rl"
    "maxConns (snd (canAuth now now' ip rl)) = maxConns rl"
    "maxAuth (snd (canAuth now now' ip rl)) = maxAuth rl"
    by (rule canAuth_connections canAuth_maxConns canAuth_maxAuth)+
  have x: "fst (canAuth now now' ip (after_calls rl hist))
          = (int (length (after_cutoff (now - minute) (attempts_of rl ip @ accepted rl hist ip)))
               < maxAuth rl)"
    if "mono_clock t1 (hist @ [CallCanAuth now now' ip])"
    using that by (rule after_calls_decision)
  from s1 s2 s3 s4 d w x e show ?thesis by blast
qed

theorem canAuth_window_witness:
  "mono_clock 0 [CallCanAuth 1 1 ''h'', CallCanAuth 2 2 ''h'', CallCanAuth 3 3 ''h'',
                 CallCanAuth 4 4 ''h'', CallCanAuth 5 5 ''h'', CallCanAuth 6 6 ''h'']
   \<and> attempts_of (newRateLimiter (\<lambda>_. []) (\<lambda>_. None)) ''h'' = []
   \<and> 0 \<le> maxAuth (newRateLimiter (\<lambda>_. []) (\<lambda>_. None))
   \<and> accepted (newRateLimiter (\<lambda>_. []) (\<lambda>_. None))
        [CallCanAuth 1 1 ''h'', CallCanAuth 2 2 ''h'', CallCanAuth 3 3 ''h'',
         CallCanAuth 4 4 ''h'', CallCanAuth 5 5 ''h'', CallCanAuth 6 6 ''h''] ''h'' = [1, 2, 3, 4, 5]
   \<and> int (length (filter (in_window 0) (accepted (newRateLimiter (\<lambda>_. []) (\<lambda>_. None))
        [CallCanAuth 1 1 ''h'', CallCanAuth 2 2 ''h'', CallCanAuth 3 3 ''h'',
         CallCanAuth 4 4 ''h'', CallCanAuth 5 5 ''h'', CallCanAuth 6 6 ''h''] ''h'')))
       \<le> maxAuth (newRateLimiter (\<lambda>_. []) (\<lambda>_. None))
   \<and> mono_clock 0 ([CallCanAuth 1 1 ''h'', CallCanAuth 2 2 ''h'', CallCanAuth 3 3 ''h'',
         CallCanAuth 4 4 ''h'', CallCanAuth 5 5 ''h'', CallCanAuth 6 6 ''h'']
         @ [CallCanAuth 7 7 ''g''])
   \<and> fst (canAuth 7 7 ''g'' (after_calls (newRateLimiter (\<lambda>_. []) (\<lambda>_. None))
        [CallCanAuth 1 1 ''h'', CallCanAuth 2 2 ''h'', CallCanAuth 3 3 ''h'',
         CallCanAuth 4 4 ''h'', CallCanAuth 5 5 ''h'', CallCanAuth 6 6 ''h'']))
   \<and> mono_clock 0 ([CallCanAuth 1 1 ''h'', CallCanAuth 2 2 ''h'', CallCanAuth 3 3 ''h'',
         CallCanAuth 4 4 ''h'', CallCanAuth 5 5 ''h'', CallCanAuth 6 6 ''h'']
         @ [CallCanAuth 7 7 ''h''])
   \<and> \<not> fst (canAuth 7 7 ''h'' (after_calls (newRateLimiter (\<lambda>_. []) (\<lambda>_. None))
        [CallCanAuth 1 1 ''h'', CallCanAuth 2 2 ''h'', CallCanAuth 3 3 ''h'',
         CallCanAuth 4 4 ''h'', CallCanAuth 5 5 ''h'', CallCanAuth 6 6 ''h'']))
   \<and> authAttempts (snd (canAuth 7 7 ''g''
        ((newRateLimiter (\<lambda>_. []) (\<lambda>_. None))\<lparr>authAttempts := [''h'' \<mapsto> [1, 2, 3, 4, 5]]\<rparr>)))
       = [''h'' \<mapsto> [1, 2, 3, 4, 5], ''g'' \<mapsto> [7]]
   \<and> authAttempts (snd (canAuth 7 7 ''h''
        ((newRateLimiter (\<lambda>_. []) (\<lambda>_. None))\<lparr>authAttempts := [''h'' \<mapsto> [1, 2, 3, 4, 5]]\<rparr>)))
       = [''h'' \<mapsto> [1, 2, 3, 4, 5]]
   \<and> int (length (after_cutoff (6 - minute)
        (attempts_of ((newRateLimiter (\<lambda>_. []) (\<lambda>_. None))\<lparr>authAttempts := [''h'' \<mapsto> [1, 2, 3, 4, 5]]\<rparr>) ''h'')))
       = maxAuth ((newRateLimiter (\<lambda>_. []) (\<lambda>_. None))\<lparr>authAttempts := [''h'' \<mapsto> [1, 2, 3, 4, 5]]\<rparr>)
   \<and> hd (after_cutoff (6 - minute)
        (attempts_of ((newRateLimiter (\<lambda>_. []) (\<lambda>_. None))\<lparr>authAttempts := [''h'' \<mapsto> [1, 2, 3, 4, 5]]\<rparr>) ''h''))
       \<le> (minute + 1) - minute
   \<and> \<not> fst (canAuth 6 6 ''h'' ((newRateLimiter (\<lambda>_. []) (\<lambda>_. None))\<lparr>authAttempts := [''h'' \<mapsto> [1, 2, 3, 4, 5]]\<rparr>))
   \<and> fst (canAuth (minute + 1) (minute + 1) ''h''
        (snd (canAuth 6 6 ''h'' ((newRateLimiter (\<lambda>_. []) (\<lambda>_. None))\<lparr>authAttempts := [''h'' \<mapsto> [1, 2, 3, 4, 5]]\<rparr>))))"
proof -
  let ?rl = "newRateLimiter (\<lambda>_. []) (\<lambda>_. None)"
  let ?cs = "[CallCanAuth 1 1 ''h'', CallCanAuth 2 2 ''h'', CallCanAuth 3 3 ''h'',
              CallCanAuth 4 4 ''h'', CallCanAuth 5 5 ''h'', CallCanAuth 6 6 ''h'']"
  let ?rl5 = "?rl\<lparr>authAttempts := [''h'' \<mapsto> [1, 2, 3, 4, 5]]\<rparr>"
  have h1: "mono_clock 0 ?cs \<and> attempts_of ?rl ''h'' = [] \<and> 0 \<le> maxAuth ?rl"
    by (simp add: newRateLimiter_def env_int_def attempts_of_def)
  have acc: "accepted ?rl ?cs ''h'' = [1, 2, 3, 4, 5]" "accepted ?rl ?cs ''g'' = []"
    by (simp_all add: newRateLimiter_def env_int_def attempts_of_def canAuth_def Let_def
        after_cutoff_def minute_def)
  have h2: "int (length (after_cutoff (6 - minute) (attempts_of ?rl5 ''h''))) = maxAuth ?rl5
      \<and> 0 < maxAuth ?rl5
      \<and> hd (after_cutoff (6 - minute) (attempts_of ?rl5 ''h'')) \<le> (minute + 1) - minute"
    by (simp add: newRateLimiter_def env_int_def attempts_of_def after_cutoff_def minute_def)
  have h3: "mono_clock 0 (?cs @ [CallCanAuth 7 7 ''g''])" "mono_clock 0 (?cs @ [CallCanAuth 7 7 ''h''])"
    by simp_all
  have v: "attempts_of ?rl ''g'' = []" "maxAuth ?rl = 5"
    by (simp_all add: newRateLimiter_def env_int_def attempts_of_def)
  from h1 canAuth_window [where now = 6 and now' = 6 and ip = "''h''" and rl = ?rl
      and ?t0.0 = 0 and calls = ?cs and a = 0]
  have c1: "int (length (filter (in_window 0) (accepted ?rl ?cs ''h''))) \<le> maxAuth ?rl"
    by blast
  from h3(1) canAuth_window [where now = 7 and now' = 7 and ip = "''g''" and rl = ?rl
      and ?t1.0 = 0 and hist = ?cs]
  have "fst (canAuth 7 7 ''g'' (after_calls ?rl ?cs))
      = (int (length (after_cutoff (7 - minute) (attempts_of ?rl ''g'' @ accepted ?rl ?cs ''g'')))
           < maxAuth ?rl)"
    by blast
  moreover have "int (length (after_cutoff (7 - minute) (attempts_of ?rl ''g'' @ accepted ?rl ?cs ''g'')))
           < maxAuth ?rl"
    unfolding acc v by (simp add: after_cutoff_def)
  ultimately have c3: "fst (canAuth 7 7 ''g'' (after_calls ?rl ?cs))" by blast
  from h3(2) canAuth_window [where now = 7 and now' = 7 and ip = "''h''" and rl = ?rl
      and ?t1.0 = 0 and hist = ?cs]
  have "fst (canAuth 7 7 ''h'' (after_calls ?rl ?cs))
      = (int (length (after_cutoff (7 - minute) (attempts_of ?rl ''h'' @ accepted ?rl ?cs ''h'')))
           < maxAuth ?rl)"
    by blast
  moreover have "\<not> int (length (after_cutoff (7 - minute) (attempts_of ?rl ''h'' @ accepted ?rl ?cs ''h'')))
           < maxAuth ?rl"
    unfolding acc v(2) using h1 by (simp add: after_cutoff_def minute_def)
  ultimately have c4: "\<not> fst (canAuth 7 7 ''h'' (after_calls ?rl ?cs))" by blast
  from canAuth_window [where now = 7 and now' = 7 and ip = "''g''" and rl = ?rl5]
  have "authAttempts (snd (canAuth 7 7 ''g'' ?rl5)) =
       (authAttempts ?rl5)(''g'' \<mapsto> after_cutoff (7 - minute) (attempts_of ?rl5 ''g'')
          @ (if fst (canAuth 7 7 ''g'' ?rl5) then [7] else []))"
    by blast
  then have c5: "authAttempts (snd (canAuth 7 7 ''g'' ?rl5)) = [''h'' \<mapsto> [1, 2, 3, 4, 5], ''g'' \<mapsto> [7]]"
    by (simp add: canAuth_def Let_def newRateLimiter_def env_int_def attempts_of_def
        after_cutoff_def minute_def)
  from canAuth_window [where now = 7 and now' = 7 and ip = "''h''" and rl = ?rl5]
  have "authAttempts (snd (canAuth 7 7 ''h'' ?rl5)) =
       (authAttempts ?rl5)(''h'' \<mapsto> after_cutoff (7 - minute) (attempts_of ?rl5 ''h'')
          @ (if fst (canAuth 7 7 ''h'' ?rl5) then [7] else []))"
    by blast
  then have c6: "authAttempts (snd (canAuth 7 7 ''h'' ?rl5)) = [''h'' \<mapsto> [1, 2, 3, 4, 5]]"
    by (simp add: canAuth_def Let_def newRateLimiter_def env_int_def attempts_of_def
        after_cutoff_def minute_def)
  from h2 canAuth_window [where now = 6 and now' = 6 and ip = "''h''" and rl = ?rl5
      and ?now2.0 = "minute + 1" and now2' = "minute + 1"]
  have c2: "\<not> fst (canAuth 6 6 ''h'' ?rl5)
      \<and> fst (canAuth (minute + 1) (minute + 1) ''h'' (snd (canAuth 6 6 ''h'' ?rl5)))"
    by blast
  from h1 acc(1) c1 h3 c3 c4 c5 c6 h2 c2 show ?thesis by blast
qed

section \<open>The hub and the connection handler (cmd/server/main.go)\<close>

subsection \<open>Broadcast\<close>

lemma after_broadcast_Nil: "after_broadcast [] m s = s"
  by (simp add: after_broadcast_def)

lemma after_broadcast_Cons_room:
  assumes "c \<notin> set cs" "has_room (send s c)"
  shows "after_broadcast cs m (s\<lparr>send := (send s)(c := (send s c)\<lparr>buf := buf (send s c) @ [m]\<rparr>)\<rparr>)
         = after_broadcast (c # cs) m s"
proof -
  have "filter (\<lambda>kv. \<not> (fst kv \<in> set cs \<and> \<not> has_room (if fst kv = c then (send s c)\<lparr>buf := buf (send s c) @ [m]\<rparr> else send s (fst kv)))) (hub_clients s)
      = filter (\<lambda>kv. \<not> ((fst kv = c \<or> fst kv \<in> set cs) \<and> \<not> has_room (send s (fst kv)))) (hub_clients s)"
    using assms by (intro filter_cong) auto
  then show ?thesis
    using assms by (simp add: after_broadcast_def fun_eq_iff)
qed

lemma after_broadcast_Cons_full:
  assumes "c \<notin> set cs" "\<not> has_room (send s c)"
  shows "after_broadcast cs m (s\<lparr>send := (send s)(c := (send s c)\<lparr>closed := True\<rparr>),
                                  hub_clients := AList.delete c (hub_clients s)\<rparr>)
         = after_broadcast (c # cs) m s"
proof -
  have "filter (\<lambda>kv. \<not> (fst kv \<in> set cs \<and> \<not> has_room (if fst kv = c then (send s c)\<lparr>closed := True\<rparr> else send s (fst kv))))
          (AList.delete c (hub_clients s))
      = filter (\<lambda>kv. \<not> ((fst kv = c \<or> fst kv \<in> set cs) \<and> \<not> has_room (send s (fst kv)))) (hub_clients s)"
    using assms unfolding AList.delete_eq filter_filter
    by (intro filter_cong) (auto simp: has_room_def)
  then show ?thesis
    using assms by (simp add: after_broadcast_def fun_eq_iff)
qed

lemma broadcast_over_result:
  assumes "distinct order" "\<forall>c\<in>set order. \<not> closed (send s c)"
  shows "broadcast_over order m s = Inr (after_broadcast order m s)"
  using assms
proof (induction order arbitrary: s)
  case Nil
  show ?case by (simp add: after_broadcast_Nil)
next
  case (Cons c cs)
  from Cons.prems have c: "c \<notin> set cs" "distinct cs" "\<not> closed (send s c)"
    and rest: "\<forall>k\<in>set cs. \<not> closed (send s k)" by simp_all
  show ?case
  proof (cases "has_room (send s c)")
    case True
    let ?s1 = "s\<lparr>send := (send s)(c := (send s c)\<lparr>buf := buf (send s c) @ [m]\<rparr>)\<rparr>"
    have open1: "\<forall>k\<in>set cs. \<not> closed (send ?s1 k)" using rest c(1) by auto
    have "broadcast_over (c # cs) m s = broadcast_over cs m ?s1"
      using True c(3) by (simp add: try_send_def has_room_def)
    also have "\<dots> = Inr (after_broadcast cs m ?s1)" by (rule Cons.IH [OF c(2) open1])
    also have "after_broadcast cs m ?s1 = after_broadcast (c # cs) m s"
      by (rule after_broadcast_Cons_room [OF c(1) True])
    finally show ?thesis .
  next
    case False
    let ?s1 = "s\<lparr>send := (send s)(c := (send s c)\<lparr>closed := True\<rparr>),
                 hub_clients := AList.delete c (hub_clients s)\<rparr>"
    have open1: "\<forall>k\<in>set cs. \<not> closed (send ?s1 k)" using rest c(1) by auto
    have "broadcast_over (c # cs) m s = broadcast_over cs m ?s1"
      using False c(3) by (simp add: try_send_def chan_close_def has_room_def)
    also have "\<dots> = Inr (after_broadcast cs m ?s1)" by (rule Cons.IH [OF c(2) open1])
    also have "after_broadcast cs m ?s1 = after_broadcast (c # cs) m s"
      by (rule after_broadcast_Cons_full [OF c(1) False])
    finally show ?thesis .
  qed
qed

lemma broadcast_over_panics:
  "c \<in> set order \<Longrightarrow> closed (send s c) \<Longrightarrow> \<forall>k\<in>set order. k \<noteq> c \<longrightarrow> \<not> closed (send s k)
     \<Longrightarrow> distinct order \<Longrightarrow> broadcast_over order m s = Inl SendOnClosedChannel"
proof (induction order arbitrary: s)
  case Nil
  then show ?case by simp
next
  case (Cons k ks)
  show ?case
  proof (cases "k = c")
    case True
    with Cons.prems show ?thesis by (simp add: try_send_def)
  next
    case False
    with Cons.prems have kc: "\<not> closed (send s k)" "c \<in> set ks" "k \<notin> set ks" "distinct ks" by auto
    show ?thesis
    proof (cases "has_room (send s k)")
      case True
      let ?s1 = "s\<lparr>send := (send s)(k := (send s k)\<lparr>buf := buf (send s k) @ [m]\<rparr>)\<rparr>"
      have "broadcast_over (k # ks) m s = broadcast_over ks m ?s1"
        using True kc(1) by (simp add: try_send_def has_room_def)
      also have "\<dots> = Inl SendOnClosedChannel"
        using Cons.prems False kc by (intro Cons.IH) auto
      finally show ?thesis .
    next
      case nr: False
      let ?s1 = "s\<lparr>send := (send s)(k := (send s k)\<lparr>closed := True\<rparr>),
                   hub_clients := AList.delete k (hub_clients s)\<rparr>"
      have "broadcast_over (k # ks) m s = broadcast_over ks m ?s1"
        using nr kc(1) by (simp add: try_send_def chan_close_def has_room_def)
      also have "\<dots> = Inl SendOnClosedChannel"
        using Cons.prems False kc by (intro Cons.IH) auto
      finally show ?thesis .
    qed
  qed
qed

lemma after_broadcast_order: "set order = set order' \<Longrightarrow> after_broadcast order m s = after_broadcast order' m s"
  by (simp add: after_broadcast_def)

lemma registered_after_broadcast:
  "registered (after_broadcast order m s)
     = {c \<in> registered s. \<not> (c \<in> set order \<and> \<not> has_room (send s c))}"
  by (auto simp: registered_def after_broadcast_def image_iff)

section \<open>The source address\<close>

lemma limiter_client_send: "client_send c m s = Inr s' \<Longrightarrow> limiter s' = limiter s"
  by (auto simp: client_send_def split: sum.splits option.splits)

lemma on_auth_limiter:
  "on_auth env now now' c wsMsg s = Inr s' \<Longrightarrow>
     limiter s' = snd (canAuth now now' (clientIP s c) (limiter s))"
  by (auto simp: on_auth_def Let_def hub_register_def split: prod.splits sum.splits if_splits
      dest!: limiter_client_send)

text \<open>
  Claim C10. \<open>getClientIP\<close> returns the whole \<open>X-Forwarded-For\<close> value when it is
  not empty, else the \<open>X-Real-IP\<close> value when that is not empty, else the host part of
  the peer address. The handler checks and counts the connection under that string,
  stores it for the connection, and the \<open>auth\<close> case limits attempts under the stored
  string: a request carrying a non-empty \<open>X-Forwarded-For\<close> is limited under exactly the
  string it sent.
\<close>

theorem getClientIP_key:
  "getClientIP sp r =
     (if Header_Get r ''X-Forwarded-For'' \<noteq> [] then Header_Get r ''X-Forwarded-For''
      else if Header_Get r ''X-Real-IP'' \<noteq> [] then Header_Get r ''X-Real-IP''
      else fst (sp (RemoteAddr r)))
   \<and> (fst (handleWebSocket_accept sp r up s) = TooManyRequests)
       = (\<not> conn_count (limiter s) (getClientIP sp r) < maxConns (limiter s))
   \<and> (fst (handleWebSocket_accept sp r up s) = Accepted c \<longrightarrow>
        clientIP (snd (handleWebSocket_accept sp r up s)) c = getClientIP sp r
        \<and> limiter (snd (handleWebSocket_accept sp r up s))
            = addConnection (getClientIP sp r) (limiter s))
   \<and> (on_auth env now now' c wsMsg s = Inr s' \<longrightarrow>
        limiter s' = snd (canAuth now now' (clientIP s c) (limiter s)))
   \<and> (Header_Get r ''X-Forwarded-For'' = k \<and> k \<noteq> [] \<longrightarrow> getClientIP sp r = k)"
proof -
  have a: "getClientIP sp r =
     (if Header_Get r ''X-Forwarded-For'' \<noteq> [] then Header_Get r ''X-Forwarded-For''
      else if Header_Get r ''X-Real-IP'' \<noteq> [] then Header_Get r ''X-Real-IP''
      else fst (sp (RemoteAddr r)))"
    by (simp add: getClientIP_def Let_def)
  have b: "(fst (handleWebSocket_accept sp r up s) = TooManyRequests)
       = (\<not> conn_count (limiter s) (getClientIP sp r) < maxConns (limiter s))"
    by (simp add: handleWebSocket_accept_def Let_def canConnect_def)
  have c: "clientIP (snd (handleWebSocket_accept sp r up s)) c = getClientIP sp r
        \<and> limiter (snd (handleWebSocket_accept sp r up s))
            = addConnection (getClientIP sp r) (limiter s)"
    if "fst (handleWebSocket_accept sp r up s) = Accepted c"
    using that by (auto simp: handleWebSocket_accept_def Let_def split: if_splits)
  have d: "limiter s' = snd (canAuth now now' (clientIP s c) (limiter s))"
    if "on_auth env now now' c wsMsg s = Inr s'"
    using that by (rule on_auth_limiter)
  have e: "getClientIP sp r = k" if "Header_Get r ''X-Forwarded-For'' = k" "k \<noteq> []"
    using that by (simp add: getClientIP_def Let_def)
  from a b c d e show ?thesis by blast
qed

lemma sample_accept:
  "handleWebSocket_accept sample_split (sample_request ''10.1.1.1, 10.2.2.2'') True sample_server
   = (Accepted 0,
      sample_server\<lparr>limiter := addConnection ''10.1.1.1, 10.2.2.2'' (limiter sample_server),
        clientIP := (clientIP sample_server)(0 := ''10.1.1.1, 10.2.2.2''),
        next_client := 1\<rparr>)"
  by (simp add: handleWebSocket_accept_def Let_def getClientIP_def sample_request_def
      canConnect_def conn_count_def sample_server_def init_server_def newRateLimiter_def env_int_def
      fun_upd_idem)

theorem getClientIP_key_witness:
  "fst (handleWebSocket_accept sample_split (sample_request ''10.1.1.1, 10.2.2.2'') True sample_server)
     = Accepted 0
   \<and> clientIP (snd (handleWebSocket_accept sample_split (sample_request ''10.1.1.1, 10.2.2.2'') True
        sample_server)) 0 = ''10.1.1.1, 10.2.2.2''
   \<and> conn_count (limiter (snd (handleWebSocket_accept sample_split
        (sample_request ''10.1.1.1, 10.2.2.2'') True sample_server))) ''10.1.1.1, 10.2.2.2'' = 1
   \<and> on_auth sample_env 5 6 0 \<lparr>Type = ''auth'', Payload = ''alice,pw1''\<rparr>
        (snd (handleWebSocket_accept sample_split (sample_request ''10.1.1.1, 10.2.2.2'') True
           sample_server))
      = Inr (projr (on_auth sample_env 5 6 0 \<lparr>Type = ''auth'', Payload = ''alice,pw1''\<rparr>
          (snd (handleWebSocket_accept sample_split (sample_request ''10.1.1.1, 10.2.2.2'') True
             sample_server))))
   \<and> attempts_of (limiter (projr (on_auth sample_env 5 6 0 \<lparr>Type = ''auth'', Payload = ''alice,pw1''\<rparr>
          (snd (handleWebSocket_accept sample_split (sample_request ''10.1.1.1, 10.2.2.2'') True
             sample_server))))) ''10.1.1.1, 10.2.2.2'' = [6]
   \<and> Header_Get (sample_request ''10.1.1.1, 10.2.2.2'') ''X-Forwarded-For'' = ''10.1.1.1, 10.2.2.2''
   \<and> getClientIP sample_split (sample_request ''10.1.1.1, 10.2.2.2'') = ''10.1.1.1, 10.2.2.2''
   \<and> getClientIP sample_split (sample_request []) = ''192.0.2.7''"
proof -
  let ?r = "sample_request ''10.1.1.1, 10.2.2.2''"
  let ?k = "''10.1.1.1, 10.2.2.2''"
  let ?acc = "handleWebSocket_accept sample_split ?r True sample_server"
  let ?m = "\<lparr>Type = ''auth'', Payload = ''alice,pw1''\<rparr>"
  have h1: "fst ?acc = Accepted 0" by (simp add: sample_accept)
  have open0: "send (snd ?acc) 0 = make_chan"
    by (simp add: sample_accept) (simp add: sample_server_def init_server_def)
  have ip0: "clientIP (snd ?acc) 0 = ?k" by (simp add: sample_accept)
  have "\<exists>s'. on_auth sample_env 5 6 0 ?m (snd ?acc) = Inr s'"
    by (simp add: sample_accept)
      (simp add: on_auth_def Let_def sample_env_def sample_server_def init_server_def canAuth_def
        newRateLimiter_def env_int_def attempts_of_def after_cutoff_def addConnection_def
        client_send_def try_send_def make_chan_def chan_cap_def hub_register_def
        split: prod.splits)
  then have h2: "on_auth sample_env 5 6 0 ?m (snd ?acc)
      = Inr (projr (on_auth sample_env 5 6 0 ?m (snd ?acc)))"
    by auto
  have h3: "Header_Get ?r ''X-Forwarded-For'' = ?k \<and> ?k \<noteq> []"
    by (simp add: sample_request_def)
  note T = getClientIP_key [of sample_split ?r True sample_server 0 sample_env 5 6 ?m
      "projr (on_auth sample_env 5 6 0 ?m (snd ?acc))" ?k]
  from T h1 have c1: "clientIP (snd ?acc) 0 = getClientIP sample_split ?r
      \<and> limiter (snd ?acc) = addConnection (getClientIP sample_split ?r) (limiter sample_server)"
    by blast
  from T h3 have c3: "getClientIP sample_split ?r = ?k" by blast
  note T2 = getClientIP_key [of sample_split ?r True "snd ?acc" 0 sample_env 5 6 ?m
      "projr (on_auth sample_env 5 6 0 ?m (snd ?acc))" ?k]
  from T2 h2 have c2: "limiter (projr (on_auth sample_env 5 6 0 ?m (snd ?acc)))
      = snd (canAuth 5 6 (clientIP (snd ?acc) 0) (limiter (snd ?acc)))"
    by blast
  have cnt: "conn_count (limiter (snd ?acc)) ?k = 1"
    using c1 c3
    by (simp add: conn_count_addConnection) (simp add: conn_count_def sample_server_def
        init_server_def newRateLimiter_def)
  have att: "attempts_of (limiter (projr (on_auth sample_env 5 6 0 ?m (snd ?acc)))) ?k = [6]"
  proof -
    have lim: "limiter (snd ?acc) = addConnection ?k (limiter sample_server)"
      using c1 c3 by simp
    show ?thesis
      unfolding c2 ip0 lim
      by (simp add: canAuth_def Let_def addConnection_def attempts_of_def after_cutoff_def
          sample_server_def init_server_def newRateLimiter_def env_int_def minute_def)
  qed
  have last: "getClientIP sample_split (sample_request []) = ''192.0.2.7''"
    by (simp add: getClientIP_def sample_request_def sample_split_def Let_def)
  from h1 ip0 cnt h2 att h3 c3 last show ?thesis by blast
qed

section \<open>Messages before authentication\<close>

lemma dispatch_unauthenticated_ignored:
  assumes "userID s c = 0" "Type wsMsg \<noteq> ''auth''" "Type wsMsg \<noteq> ''check_user''"
  shows "dispatch env now now' c wsMsg s = Inr s"
  using assms
  by (simp add: dispatch_def on_typing_def on_create_conversation_def on_get_messages_def
      on_read_receipt_def on_send_message_def on_get_conversations_def on_add_participant_def
      on_rename_conversation_def on_leave_conversation_def)

lemma dispatch_check_user:
  assumes "Type wsMsg = ''check_user''" "\<not> closed (send s c)" "length (buf (send s c)) < chan_cap"
  shows "dispatch env now now' c wsMsg s =
     Inr (s\<lparr>db := snd (checkUserExists env (decode_check_user env (Payload wsMsg)) (db s)),
           send := (send s)(c := (send s c)\<lparr>buf := buf (send s c) @
             [marshal env (Resp_user_check_result (decode_check_user env (Payload wsMsg))
                (fst (fst (checkUserExists env (decode_check_user env (Payload wsMsg)) (db s)))))]\<rparr>)\<rparr>)"
  using assms
  by (simp add: dispatch_def on_check_user_def client_send_def try_send_def Let_def
      split: prod.splits)

text \<open>
  Claim C1. On a connection whose user id is still 0, a message whose tag is neither
  \<open>auth\<close> nor \<open>check_user\<close> leaves the whole server state as it was: nothing is
  queued, registered, broadcast or written to the database. A \<open>check_user\<close> message is
  served all the same: the handler runs \<open>checkUserExists\<close> on the database and queues
  a \<open>user_check_result\<close> reply on the connection.
\<close>

theorem check_user_before_auth:
  "(userID s c = 0 \<and> Type wsMsg \<noteq> ''auth'' \<and> Type wsMsg \<noteq> ''check_user'' \<longrightarrow>
      dispatch env now now' c wsMsg s = Inr s)
   \<and> (userID s c = 0 \<and> Type wsMsg = ''check_user'' \<and> \<not> closed (send s c)
        \<and> length (buf (send s c)) < chan_cap \<longrightarrow>
      dispatch env now now' c wsMsg s =
        Inr (s\<lparr>db := snd (checkUserExists env (decode_check_user env (Payload wsMsg)) (db s)),
              send := (send s)(c := (send s c)\<lparr>buf := buf (send s c) @
                [marshal env (Resp_user_check_result (decode_check_user env (Payload wsMsg))
                   (fst (fst (checkUserExists env (decode_check_user env (Payload wsMsg)) (db s)))))]\<rparr>)\<rparr>))"
  using dispatch_unauthenticated_ignored [of s c wsMsg env now now']
    dispatch_check_user [of wsMsg s c env now now']
  by blast

theorem check_user_before_auth_witness:
  "userID sample_server 0 = 0
   \<and> Type \<lparr>Type = ''get_conversations'', Payload = []\<rparr> \<noteq> ''auth''
   \<and> Type \<lparr>Type = ''get_conversations'', Payload = []\<rparr> \<noteq> ''check_user''
   \<and> dispatch sample_env 1 1 0 \<lparr>Type = ''get_conversations'', Payload = []\<rparr> sample_server
       = Inr sample_server
   \<and> Type \<lparr>Type = ''check_user'', Payload = ''alice''\<rparr> = ''check_user''
   \<and> \<not> closed (send sample_server 0)
   \<and> length (buf (send sample_server 0)) < chan_cap
   \<and> dispatch sample_env 1 1 0 \<lparr>Type = ''check_user'', Payload = ''alice''\<rparr> sample_server
       = Inr (sample_server\<lparr>send := (send sample_server)
               (0 := \<lparr>buf = [''user_check_result:alice:true''], closed = False\<rparr>)\<rparr>)
   \<and> reader_step sample_env 1 1 0 (ReadMessage ''check_user:alice'') sample_server
       = Inr (sample_server\<lparr>send := (send sample_server)
               (0 := \<lparr>buf = [''user_check_result:alice:true''], closed = False\<rparr>)\<rparr>)"
proof -
  let ?g = "\<lparr>Type = ''get_conversations'', Payload = []\<rparr>"
  let ?m = "\<lparr>Type = ''check_user'', Payload = ''alice''\<rparr>"
  let ?s' = "sample_server\<lparr>send := (send sample_server)
               (0 := \<lparr>buf = [''user_check_result:alice:true''], closed = False\<rparr>)\<rparr>"
  have h1: "userID sample_server 0 = 0 \<and> Type ?g \<noteq> ''auth'' \<and> Type ?g \<noteq> ''check_user''"
    by (simp add: sample_server_def init_server_def)
  have h2: "userID sample_server 0 = 0 \<and> Type ?m = ''check_user'' \<and> \<not> closed (send sample_server 0)
      \<and> length (buf (send sample_server 0)) < chan_cap"
    by (simp add: sample_server_def init_server_def make_chan_def chan_cap_def)
  from h1 check_user_before_auth [of sample_server 0 ?g sample_env 1 1]
  have c1: "dispatch sample_env 1 1 0 ?g sample_server = Inr sample_server" by blast
  have val: "sample_server\<lparr>db := snd (checkUserExists sample_env (decode_check_user sample_env (Payload ?m)) (db sample_server)),
              send := (send sample_server)(0 := (send sample_server 0)\<lparr>buf := buf (send sample_server 0) @
                [marshal sample_env (Resp_user_check_result (decode_check_user sample_env (Payload ?m))
                   (fst (fst (checkUserExists sample_env (decode_check_user sample_env (Payload ?m)) (db sample_server)))))]\<rparr>)\<rparr>
        = ?s'"
    by (simp add: sample_env_def sample_server_def init_server_def sample_marshal_def make_chan_def)
  from h2 check_user_before_auth [of sample_server 0 ?m sample_env 1 1]
  have c2: "dispatch sample_env 1 1 0 ?m sample_server = Inr ?s'"
    unfolding val by blast
  have um: "unmarshal_msg sample_env ''check_user:alice'' = Some ?m"
    by (simp add: sample_env_def)
  have c3: "reader_step sample_env 1 1 0 (ReadMessage ''check_user:alice'') sample_server = Inr ?s'"
  proof -
    have pre: "\<not> reader_done sample_server 0" "parked sample_server 0 = None"
      "conn_closes sample_server 0 = 0"
      by (simp_all add: sample_server_def init_server_def)
    show ?thesis by (simp add: reader_step_def pre um c2)
  qed
  from h1 c1 h2 c2 c3 show ?thesis by blast
qed

section \<open>The registry\<close>

subsection \<open>Hub operations\<close>

lemma registered_upd [simp]:
  "registered (s\<lparr>userID := a\<rparr>) = registered s"
  "registered (s\<lparr>username := b\<rparr>) = registered s"
  "registered (s\<lparr>send := e\<rparr>) = registered s"
  "registered (s\<lparr>limiter := f\<rparr>) = registered s"
  "registered (s\<lparr>db := g\<rparr>) = registered s"
  "registered (s\<lparr>clientIP := h\<rparr>) = registered s"
  "registered (s\<lparr>reader_done := i\<rparr>) = registered s"
  "registered (s\<lparr>writer_done := j\<rparr>) = registered s"
  "registered (s\<lparr>conn_closes := k\<rparr>) = registered s"
  "registered (s\<lparr>parked := l\<rparr>) = registered s"
  "registered (s\<lparr>next_client := n\<rparr>) = registered s"
  by (simp_all add: registered_def)

lemma registered_hub_clients_upd: "registered (s\<lparr>hub_clients := h\<rparr>) = fst ` set h"
  by (simp add: registered_def)

lemma registered_hub_register: "registered (hub_register c s) = insert c (registered s)"
  by (simp add: registered_def hub_register_def dom_update)

lemma distinct_hub_register:
  "distinct (map fst (hub_clients s)) \<Longrightarrow> distinct (map fst (hub_clients (hub_register c s)))"
  by (simp add: hub_register_def distinct_update)

lemma hub_unregister_alt:
  "hub_unregister c s =
     (if c \<in> registered s
      then (if closed (send s c) then Inl CloseOfClosedChannel
            else Inr (s\<lparr>hub_clients := AList.delete c (hub_clients s),
                       send := (send s)(c := (send s c)\<lparr>closed := True\<rparr>)\<rparr>))
      else Inr s)"
proof (cases "map_of (hub_clients s) c")
  case None
  then have "c \<notin> registered s" by (simp add: registered_def map_of_eq_None_iff)
  with None show ?thesis by (simp add: hub_unregister_def)
next
  case (Some v)
  then have "c \<in> registered s"
    unfolding registered_def using map_of_eq_None_iff [of "hub_clients s" c] by simp
  with Some show ?thesis by (simp add: hub_unregister_def chan_close_def)
qed

lemma hub_unregister_absent: "c \<notin> registered s \<Longrightarrow> hub_unregister c s = Inr s"
  by (simp add: hub_unregister_alt)

lemma hub_unregister_cases:
  assumes "hub_unregister c s = Inr s'"
  obtains "c \<notin> registered s" "s' = s"
  | "c \<in> registered s" "\<not> closed (send s c)"
    "s' = s\<lparr>hub_clients := AList.delete c (hub_clients s),
            send := (send s)(c := (send s c)\<lparr>closed := True\<rparr>)\<rparr>"
  using assms by (auto simp: hub_unregister_alt split: if_splits)

lemma registered_delete: "registered (s\<lparr>hub_clients := AList.delete c (hub_clients s)\<rparr>) = registered s - {c}"
  by (auto simp: registered_def AList.delete_eq)

lemma hub_unregister_registered:
  "hub_unregister c s = Inr s' \<Longrightarrow> registered s' = registered s - {c}"
  by (erule hub_unregister_cases) (auto simp: registered_def AList.delete_eq)

lemma hub_unregister_distinct:
  "hub_unregister c s = Inr s' \<Longrightarrow> distinct (map fst (hub_clients s))
     \<Longrightarrow> distinct (map fst (hub_clients s'))"
  by (erule hub_unregister_cases) (auto simp: distinct_delete)

lemma broadcast_over_hub:
  "broadcast_over order m s = Inr s' \<Longrightarrow>
     registered s' \<subseteq> registered s
     \<and> (distinct (map fst (hub_clients s)) \<longrightarrow> distinct (map fst (hub_clients s')))"
proof (induction order arbitrary: s)
  case Nil
  then show ?case by simp
next
  case (Cons c cs)
  from Cons.prems show ?case
  proof (cases "try_send m (send s c)")
    case (Inl p)
    with Cons.prems show ?thesis by simp
  next
    case (Inr r)
    show ?thesis
    proof (cases r)
      case (Some ch)
      with Inr Cons.prems have "broadcast_over cs m (s\<lparr>send := (send s)(c := ch)\<rparr>) = Inr s'"
        by simp
      from Cons.IH [OF this] show ?thesis by (simp add: registered_def)
    next
      case None
      with Inr Cons.prems obtain ch where
        "broadcast_over cs m (s\<lparr>send := (send s)(c := ch),
            hub_clients := AList.delete c (hub_clients s)\<rparr>) = Inr s'"
        by (auto split: sum.splits)
      from Cons.IH [OF this]
      have "registered s' \<subseteq> fst ` set (AList.delete c (hub_clients s))"
        and "distinct (map fst (AList.delete c (hub_clients s))) \<longrightarrow> distinct (map fst (hub_clients s'))"
        by (simp_all add: registered_hub_clients_upd)
      then show ?thesis
        using distinct_delete [of "hub_clients s" c] dom_delete_subset [of c "hub_clients s"]
        unfolding registered_def by blast
    qed
  qed
qed

lemma hub_step_distinct:
  "hub_step x s = Inr s' \<Longrightarrow> distinct (map fst (hub_clients s))
     \<Longrightarrow> distinct (map fst (hub_clients s'))"
proof (cases x)
  case (Register c)
  assume "hub_step x s = Inr s'" "distinct (map fst (hub_clients s))"
  with Register show ?thesis by (auto simp: distinct_hub_register)
next
  case (Unregister c)
  assume "hub_step x s = Inr s'" "distinct (map fst (hub_clients s))"
  with Unregister show ?thesis by (auto dest: hub_unregister_distinct)
next
  case (Broadcast m)
  assume "hub_step x s = Inr s'" "distinct (map fst (hub_clients s))"
  with Broadcast show ?thesis by (auto simp: hub_broadcast_def dest: broadcast_over_hub)
qed

lemma hub_run_distinct:
  "hub_run ops s = Inr s' \<Longrightarrow> distinct (map fst (hub_clients s))
     \<Longrightarrow> distinct (map fst (hub_clients s'))"
proof (induction ops arbitrary: s)
  case Nil
  then show ?case by simp
next
  case (Cons x xs)
  from Cons.prems(1) obtain s1 where s1: "hub_step x s = Inr s1" "hub_run xs s1 = Inr s'"
    by (auto split: sum.splits)
  from hub_step_distinct [OF s1(1) Cons.prems(2)] Cons.IH [OF s1(2)] show ?case by blast
qed

subsection \<open>What a reader turn leaves alone\<close>

lemma step_frame_refl [simp]: "step_frame c s s"
  by (auto simp: step_frame_def)

lemma step_frame_upd [simp]:
  "step_frame c s (s1\<lparr>db := d\<rparr>) = step_frame c s s1"
  "step_frame c s (s1\<lparr>limiter := rl\<rparr>) = step_frame c s s1"
  "step_frame c s (s1\<lparr>username := u\<rparr>) = step_frame c s s1"
  by (simp_all add: step_frame_def)

lemma step_frame_own:
  "step_frame c s s1 \<Longrightarrow> step_frame c s (s1\<lparr>userID := (userID s1)(c := uid)\<rparr>)"
  "step_frame c s s1 \<Longrightarrow> step_frame c s (s1\<lparr>parked := (parked s1)(c := p)\<rparr>)"
  "step_frame c s s1 \<Longrightarrow> step_frame c s (s1\<lparr>reader_done := (reader_done s1)(c := b)\<rparr>)"
  "step_frame c s s1 \<Longrightarrow> step_frame c s (s1\<lparr>send := (send s1)(c := ch)\<rparr>)"
  by (simp_all add: step_frame_def)

lemma hub_register_frame: "step_frame c s s1 \<Longrightarrow> step_frame c s (hub_register c s1)"
  unfolding step_frame_def
  by (simp add: registered_hub_register distinct_hub_register) (auto simp: hub_register_def)

lemma hub_unregister_frame:
  assumes "hub_unregister c s1 = Inr s'" "step_frame c s s1"
  shows "step_frame c s s'"
  using assms(1)
proof (cases rule: hub_unregister_cases)
  case 1
  with assms(2) show ?thesis by simp
next
  case 2
  have "registered s' \<subseteq> registered s1" "distinct (map fst (hub_clients s1)) \<longrightarrow> distinct (map fst (hub_clients s'))"
    using 2(3) dom_delete_subset [of c "hub_clients s1"] distinct_delete [of "hub_clients s1" c]
    by (auto simp: registered_def)
  with assms(2) show ?thesis
    unfolding step_frame_def by (auto simp: 2(3))
qed

lemma lands_Inr: "r = Inr s' \<Longrightarrow> lands r s'"
  by simp

lemma lands_in_hub [simp]: "lands (in_hub r) s' = (r = Inr s')"
  by (cases r) (auto simp: in_hub_def)

lemma in_hub_Inr [simp]: "(in_hub r = Inr s') = (r = Inr s')"
  by (cases r) (auto simp: in_hub_def)

lemma try_send_frame:
  "try_send m (send s1 c) = Inr (Some ch) \<Longrightarrow> step_frame c s s1
     \<Longrightarrow> step_frame c s (s1\<lparr>send := (send s1)(c := ch)\<rparr>)"
  by (rule step_frame_own)

lemma client_send_frame:
  assumes "lands (client_send c m s1) s'" "step_frame c s s1"
  shows "step_frame c s s'"
  using assms
  by (auto simp: client_send_def step_frame_own split: sum.splits option.splits)

lemma broadcast_over_frame:
  "broadcast_over order m s1 = Inr s' \<Longrightarrow> set order \<subseteq> insert c (registered s)
     \<Longrightarrow> step_frame c s s1 \<Longrightarrow> step_frame c s s'"
proof (induction order arbitrary: s1)
  case Nil
  then show ?case by simp
next
  case (Cons k ks)
  from Cons.prems(2) have k: "k = c \<or> k \<in> registered s" and ks: "set ks \<subseteq> insert c (registered s)"
    by auto
  show ?case
  proof (cases "try_send m (send s1 k)")
    case (Inl p)
    with Cons.prems show ?thesis by simp
  next
    case (Inr r)
    show ?thesis
    proof (cases r)
      case (Some ch)
      let ?s2 = "s1\<lparr>send := (send s1)(k := ch)\<rparr>"
      from Some Inr Cons.prems have run: "broadcast_over ks m ?s2 = Inr s'" by simp
      have "step_frame c s ?s2"
        using Cons.prems(3) k unfolding step_frame_def by auto
      from Cons.IH [OF run ks this] show ?thesis .
    next
      case None
      with Inr Cons.prems obtain ch where
        run: "broadcast_over ks m (s1\<lparr>send := (send s1)(k := ch),
            hub_clients := AList.delete k (hub_clients s1)\<rparr>) = Inr s'"
        by (auto split: sum.splits)
      let ?s2 = "s1\<lparr>send := (send s1)(k := ch), hub_clients := AList.delete k (hub_clients s1)\<rparr>"
      have "registered ?s2 \<subseteq> registered s1"
        "distinct (map fst (hub_clients s1)) \<longrightarrow> distinct (map fst (hub_clients ?s2))"
        using dom_delete_subset [of k "hub_clients s1"] distinct_delete [of "hub_clients s1" k]
        by (auto simp: registered_def)
      then have "step_frame c s ?s2"
        using Cons.prems(3) k unfolding step_frame_def by auto
      from Cons.IH [OF run ks this] show ?thesis .
    qed
  qed
qed

lemma hub_broadcast_frame:
  assumes "hub_broadcast m s = Inr s'"
  shows "step_frame c s s'"
  using assms unfolding hub_broadcast_def
  by (rule broadcast_over_frame) (auto simp: registered_def)

lemma hub_broadcast_frame_db:
  assumes "hub_broadcast m (s\<lparr>db := d\<rparr>) = Inr s'"
  shows "step_frame c s s'"
proof -
  have "step_frame c (s\<lparr>db := d\<rparr>) s'" using assms by (rule hub_broadcast_frame)
  then show ?thesis by (simp add: step_frame_def)
qed

lemma hub_register_fields [simp]:
  "userID (hub_register c s) = userID s"
  "send (hub_register c s) = send s"
  "db (hub_register c s) = db s"
  "limiter (hub_register c s) = limiter s"
  "parked (hub_register c s) = parked s"
  "reader_done (hub_register c s) = reader_done s"
  "writer_done (hub_register c s) = writer_done s"
  "conn_closes (hub_register c s) = conn_closes s"
  "clientIP (hub_register c s) = clientIP s"
  "next_client (hub_register c s) = next_client s"
  by (simp_all add: hub_register_def)

lemma on_auth_frame: "lands (on_auth env now now' c wsMsg s) s' \<Longrightarrow> step_frame c s s'"
  unfolding on_auth_def Let_def
  apply (clarsimp split: prod.splits sum.splits if_splits)
  apply ((erule client_send_frame,
      (auto simp: step_frame_def registered_hub_register distinct_hub_register)[1])+)
  done

lemma on_typing_frame: "lands (on_typing env c wsMsg s) s' \<Longrightarrow> step_frame c s s'"
  unfolding on_typing_def Let_def
  by (auto split: if_splits intro: hub_broadcast_frame)

lemma on_check_user_frame: "lands (on_check_user env c wsMsg s) s' \<Longrightarrow> step_frame c s s'"
  unfolding on_check_user_def Let_def
  apply (clarsimp split: prod.splits)
  apply ((erule client_send_frame, (auto simp: step_frame_def)[1])+)
  done

lemma on_create_conversation_frame:
  "lands (on_create_conversation env c wsMsg s) s' \<Longrightarrow> step_frame c s s'"
  unfolding on_create_conversation_def Let_def
  apply (clarsimp split: prod.splits sum.splits if_splits)
  apply ((erule client_send_frame, (auto simp: step_frame_def)[1])+)
  done

lemma on_get_messages_frame: "lands (on_get_messages env c wsMsg s) s' \<Longrightarrow> step_frame c s s'"
  unfolding on_get_messages_def Let_def
  apply (clarsimp split: prod.splits if_splits)
  apply ((erule client_send_frame, (auto simp: step_frame_def)[1])+)
  done

lemma on_read_receipt_frame: "lands (on_read_receipt env c wsMsg s) s' \<Longrightarrow> step_frame c s s'"
  unfolding on_read_receipt_def Let_def
  by (auto split: if_splits)

lemma on_send_message_frame: "lands (on_send_message env c wsMsg s) s' \<Longrightarrow> step_frame c s s'"
  unfolding on_send_message_def Let_def
  by (auto split: prod.splits sum.splits if_splits intro: hub_broadcast_frame_db)

lemma on_get_conversations_frame:
  "lands (on_get_conversations env c wsMsg s) s' \<Longrightarrow> step_frame c s s'"
  unfolding on_get_conversations_def Let_def
  apply (clarsimp split: prod.splits if_splits)
  apply ((erule client_send_frame, (auto simp: step_frame_def)[1])+)
  done

lemma on_add_participant_frame:
  "lands (on_add_participant env c wsMsg s) s' \<Longrightarrow> step_frame c s s'"
  unfolding on_add_participant_def Let_def
  apply (clarsimp split: prod.splits option.splits if_splits)
  apply ((erule client_send_frame, (auto simp: step_frame_def)[1])+)
  done

lemma on_rename_conversation_frame:
  "lands (on_rename_conversation env c wsMsg s) s' \<Longrightarrow> step_frame c s s'"
  unfolding on_rename_conversation_def Let_def
  apply (clarsimp split: prod.splits if_splits)
  apply ((erule client_send_frame, (auto simp: step_frame_def)[1])+)
  done

lemma on_leave_conversation_frame:
  "lands (on_leave_conversation env c wsMsg s) s' \<Longrightarrow> step_frame c s s'"
  unfolding on_leave_conversation_def Let_def
  apply (clarsimp split: prod.splits if_splits)
  apply ((erule client_send_frame, (auto simp: step_frame_def)[1])+)
  done

lemmas on_frames =
  on_auth_frame on_typing_frame on_check_user_frame on_create_conversation_frame
  on_get_messages_frame on_read_receipt_frame on_send_message_frame on_get_conversations_frame
  on_add_participant_frame on_rename_conversation_frame on_leave_conversation_frame

lemma dispatch_frame: "lands (dispatch env now now' c wsMsg s) s' \<Longrightarrow> step_frame c s s'"
  unfolding dispatch_def
  by (auto split: if_splits intro: on_frames)

lemma reader_step_frame: "lands (reader_step env now now' c input s) s' \<Longrightarrow> step_frame c s s'"
proof (cases "reader_done s c")
  case True
  assume "lands (reader_step env now now' c input s) s'"
  with True show ?thesis by (simp add: reader_step_def)
next
  case running: False
  assume run: "lands (reader_step env now now' c input s) s'"
  show ?thesis
  proof (cases "parked s c")
    case (Some m)
    with running run show ?thesis
      by (auto simp: reader_step_def step_frame_def split: sum.splits option.splits)
  next
    case None
    show ?thesis
    proof (cases "if 0 < conn_closes s c then ReadError else input")
      case ReadError
      with running None run
      have r: "lands (if userID s c \<noteq> 0
                then (case hub_unregister c s of
                        Inl p \<Rightarrow> Inl (HubPanic p)
                      | Inr s1 \<Rightarrow> Inr (s1\<lparr>reader_done := (reader_done s1)(c := True)\<rparr>))
                else Inr (s\<lparr>reader_done := (reader_done s)(c := True)\<rparr>)) s'"
        by (simp add: reader_step_def)
      show ?thesis
      proof (cases "userID s c \<noteq> 0")
        case True
        with r obtain s1 where s1: "hub_unregister c s = Inr s1"
          "s' = s1\<lparr>reader_done := (reader_done s1)(c := True)\<rparr>"
          by (auto split: sum.splits)
        have "step_frame c s s1" using s1(1) by (rule hub_unregister_frame) simp
        then show ?thesis unfolding s1(2) by (rule step_frame_own)
      next
        case False
        with r show ?thesis by (auto simp: step_frame_def)
      qed
    next
      case (ReadMessage msgBytes)
      with running None run
      have "lands (case unmarshal_msg env msgBytes of
               None \<Rightarrow> Inr s
             | Some wsMsg \<Rightarrow> dispatch env now now' c wsMsg s) s'"
        by (simp add: reader_step_def)
      then show ?thesis by (auto split: option.splits intro: dispatch_frame)
    qed
  qed
qed

lemma client_send_fields:
  assumes "lands (client_send c m s1) s'"
  shows "registered s' = registered s1" "userID s' = userID s1" "db s' = db s1"
    "reader_done s' = reader_done s1"
  using assms by (auto simp: client_send_def split: sum.splits option.splits)

lemma client_send_reg_uid:
  "lands (client_send c m s1) s' \<Longrightarrow> registered s' = registered s1 \<and> userID s' = userID s1"
  by (simp add: client_send_fields)

lemma hub_broadcast_registered: "hub_broadcast m s1 = Inr s' \<Longrightarrow> registered s' \<subseteq> registered s1"
  unfolding hub_broadcast_def by (drule broadcast_over_hub) simp

lemma nonauth_registered:
  assumes "Type wsMsg \<noteq> ''auth''" "lands (dispatch env now now' c wsMsg s) s'"
  shows "registered s' \<subseteq> registered s"
  using assms
  unfolding dispatch_def on_typing_def on_check_user_def on_create_conversation_def
    on_get_messages_def on_read_receipt_def on_send_message_def on_get_conversations_def
    on_add_participant_def on_rename_conversation_def on_leave_conversation_def Let_def
  by (auto split: if_splits prod.splits sum.splits option.splits
      dest!: client_send_fields(1) hub_broadcast_registered)

lemma on_auth_registers:
  assumes "lands (on_auth env now now' c wsMsg s) s'" "k \<notin> registered s" "k \<in> registered s'"
  shows "k = c \<and> fst (canAuth now now' (clientIP s c) (limiter s))
     \<and> (\<exists>uid uname d1. handleAuth env (decode_auth env (Payload wsMsg)) (db s) = (Inr (uid, uname), d1)
           \<and> userID s' c = uid)"
  using assms
  unfolding on_auth_def Let_def
  by (auto split: prod.splits sum.splits if_splits simp: registered_hub_register
      dest!: client_send_reg_uid)

subsection \<open>Events\<close>

lemma accept_fields:
  "hub_clients (snd (handleWebSocket_accept sp r up s)) = hub_clients s"
  "next_client s \<le> next_client (snd (handleWebSocket_accept sp r up s))"
  "k \<noteq> next_client s \<Longrightarrow>
     userID (snd (handleWebSocket_accept sp r up s)) k = userID s k
     \<and> reader_done (snd (handleWebSocket_accept sp r up s)) k = reader_done s k
     \<and> writer_done (snd (handleWebSocket_accept sp r up s)) k = writer_done s k
     \<and> send (snd (handleWebSocket_accept sp r up s)) k = send s k
     \<and> conn_closes (snd (handleWebSocket_accept sp r up s)) k = conn_closes s k"
  by (simp_all add: handleWebSocket_accept_def Let_def)

lemma writer_step_fields:
  "hub_clients (writer_step c w s) = hub_clients s"
  "next_client (writer_step c w s) = next_client s"
  "userID (writer_step c w s) = userID s"
  "reader_done (writer_step c w s) = reader_done s"
  "k \<noteq> c \<Longrightarrow> send (writer_step c w s) k = send s k
     \<and> writer_done (writer_step c w s) k = writer_done s k
     \<and> conn_closes (writer_step c w s) k = conn_closes s k"
  by (simp_all add: writer_step_def writer_exit_def Let_def split: list.splits)

lemma writer_step_waits:
  "\<not> writer_done s c \<Longrightarrow> buf (send s c) = [] \<Longrightarrow> \<not> closed (send s c) \<Longrightarrow> writer_step c w s = s"
  by (simp add: writer_step_def)

lemma registered_accept: "registered (snd (handleWebSocket_accept sp r up s)) = registered s"
  by (simp add: registered_def accept_fields)

lemma registered_writer_step: "registered (writer_step c w s) = registered s"
  by (simp add: registered_def writer_step_fields)

lemma reader_step_done: "reader_done s c \<Longrightarrow> reader_step env now now' c input s = Inr s"
  by (simp add: reader_step_def)

lemma reader_step_parked:
  assumes "\<not> reader_done s c" "parked s c = Some m" "lands (reader_step env now now' c input s) s'"
  shows "hub_clients s' = hub_clients s \<and> userID s' = userID s \<and> reader_done s' = reader_done s"
proof (cases "try_send m (send s c)")
  case (Inl p)
  with assms show ?thesis by (simp add: reader_step_def)
next
  case (Inr r)
  with assms show ?thesis by (cases r) (auto simp: reader_step_def)
qed

lemma reader_step_error:
  assumes "\<not> reader_done s c" "parked s c = None"
    "(if 0 < conn_closes s c then ReadError else input) = ReadError"
  shows "reader_step env now now' c input s =
     (if userID s c \<noteq> 0
      then (case hub_unregister c s of
              Inl p \<Rightarrow> Inl (HubPanic p)
            | Inr s1 \<Rightarrow> Inr (s1\<lparr>reader_done := (reader_done s1)(c := True)\<rparr>))
      else Inr (s\<lparr>reader_done := (reader_done s)(c := True)\<rparr>))"
  using assms by (simp add: reader_step_def)

lemma reader_step_message:
  assumes "\<not> reader_done s c" "parked s c = None"
    "(if 0 < conn_closes s c then ReadError else input) = ReadMessage b"
  shows "reader_step env now now' c input s =
     (case unmarshal_msg env b of
        None \<Rightarrow> Inr s
      | Some wsMsg \<Rightarrow> dispatch env now now' c wsMsg s)"
  using assms by (simp add: reader_step_def)

lemma reader_step_registers:
  assumes run: "lands (reader_step env now now' c input s) s'"
    and k: "k \<notin> registered s" "k \<in> registered s'"
  shows "k = c \<and> \<not> reader_done s c \<and> parked s c = None \<and> conn_closes s c = 0
     \<and> (\<exists>b m uid uname d1. input = ReadMessage b \<and> unmarshal_msg env b = Some m
           \<and> Type m = ''auth'' \<and> fst (canAuth now now' (clientIP s c) (limiter s))
           \<and> handleAuth env (decode_auth env (Payload m)) (db s) = (Inr (uid, uname), d1)
           \<and> userID s' c = uid)"
proof -
  have running: "\<not> reader_done s c"
  proof
    assume "reader_done s c"
    from reader_step_done [OF this] run have "s' = s" by simp
    with k show False by simp
  qed
  have np: "parked s c = None"
  proof (cases "parked s c")
    case (Some m)
    from reader_step_parked [OF running Some run] have "registered s' = registered s"
      by (simp add: registered_def)
    with k show ?thesis by simp
  qed simp
  obtain b where b: "(if 0 < conn_closes s c then ReadError else input) = ReadMessage b"
  proof (cases "if 0 < conn_closes s c then ReadError else input")
    case ReadError
    from run have r: "lands (if userID s c \<noteq> 0
      then (case hub_unregister c s of
              Inl p \<Rightarrow> Inl (HubPanic p)
            | Inr s1 \<Rightarrow> Inr (s1\<lparr>reader_done := (reader_done s1)(c := True)\<rparr>))
      else Inr (s\<lparr>reader_done := (reader_done s)(c := True)\<rparr>)) s'"
      unfolding reader_step_error [OF running np ReadError] .
    have "registered s' \<subseteq> registered s"
    proof (cases "userID s c \<noteq> 0")
      case True
      with r obtain s1 where s1: "hub_unregister c s = Inr s1"
        "s' = s1\<lparr>reader_done := (reader_done s1)(c := True)\<rparr>"
        by (auto split: sum.splits)
      from hub_unregister_registered [OF s1(1)] s1(2) show ?thesis by auto
    next
      case False
      with r show ?thesis by auto
    qed
    with k have False by blast
    then show ?thesis ..
  next
    case (ReadMessage b)
    then show ?thesis by (rule that)
  qed
  then have cc: "conn_closes s c = 0" and inp: "input = ReadMessage b"
    by (auto split: if_splits)
  from run have d: "lands (case unmarshal_msg env b of
        None \<Rightarrow> Inr s
      | Some wsMsg \<Rightarrow> dispatch env now now' c wsMsg s) s'"
    unfolding reader_step_message [OF running np b] .
  obtain m where m: "unmarshal_msg env b = Some m" "lands (dispatch env now now' c m s) s'"
  proof (cases "unmarshal_msg env b")
    case None
    with d have "s' = s" by simp
    with k have False by simp
    then show ?thesis ..
  next
    case (Some m)
    with d have "lands (dispatch env now now' c m s) s'" by simp
    with Some show ?thesis by (rule that)
  qed
  have au: "Type m = ''auth''" using nonauth_registered [OF _ m(2)] k by blast
  with m(2) have "lands (on_auth env now now' c m s) s'" by (simp add: dispatch_def)
  from on_auth_registers [OF this k] running np cc inp m(1) au show ?thesis by blast
qed

lemma sys_step_reader:
  assumes "sys_step sp env (EvReader c now now' input) s = Inr s'" "c < next_client s"
  obtains s1 where "lands (reader_step env now now' c input s) s1"
    "s' = s1 \<or> s' = s1\<lparr>reader_done := (reader_done s1)(c := True)\<rparr>"
proof (cases "reader_step env now now' c input s")
  case (Inr s1)
  with assms have "lands (reader_step env now now' c input s) s'" by simp
  then show ?thesis by (rule that) simp
next
  case (Inl f)
  show ?thesis
  proof (cases f)
    case (HubPanic p)
    with Inl assms show ?thesis by simp
  next
    case (HandlerPanic p s1)
    with Inl assms have "lands (reader_step env now now' c input s) s1"
      "s' = s1\<lparr>reader_done := (reader_done s1)(c := True)\<rparr>"
      by simp_all
    then show ?thesis by (intro that [of s1]) simp_all
  qed
qed

lemma sys_step_registers:
  assumes run: "sys_step sp env e s = Inr s'"
    and k: "k \<notin> registered s" "k \<in> registered s'"
  shows "\<exists>now now' b m uid uname d1.
      e = EvReader k now now' (ReadMessage b) \<and> k < next_client s \<and> \<not> reader_done s k
      \<and> parked s k = None \<and> conn_closes s k = 0 \<and> unmarshal_msg env b = Some m
      \<and> Type m = ''auth'' \<and> fst (canAuth now now' (clientIP s k) (limiter s))
      \<and> handleAuth env (decode_auth env (Payload m)) (db s) = (Inr (uid, uname), d1)
      \<and> userID s' k = uid"
proof (cases e)
  case (EvAccept r up)
  with run k show ?thesis by (auto simp: registered_accept)
next
  case (EvWriter c w)
  with run k show ?thesis by (auto simp: registered_writer_step split: if_splits)
next
  case (EvReader c now now' input)
  have c: "c < next_client s"
  proof (rule ccontr)
    assume "\<not> c < next_client s"
    with run EvReader have "s' = s" by simp
    with k show False by simp
  qed
  from run EvReader have "sys_step sp env (EvReader c now now' input) s = Inr s'" by simp
  from sys_step_reader [OF this c] obtain s1 where s1: "lands (reader_step env now now' c input s) s1"
    "s' = s1 \<or> s' = s1\<lparr>reader_done := (reader_done s1)(c := True)\<rparr>"
    by blast
  from s1(2) have same: "registered s' = registered s1" "userID s' = userID s1" by auto
  from k same have "k \<in> registered s1" by simp
  from reader_step_registers [OF s1(1) k(1) this] c EvReader same show ?thesis by auto
qed

lemma sys_step_distinct:
  assumes "sys_step sp env e s = Inr s'" "distinct (map fst (hub_clients s))"
  shows "distinct (map fst (hub_clients s'))"
proof (cases e)
  case (EvAccept r up)
  with assms show ?thesis by (auto simp: accept_fields)
next
  case (EvWriter c w)
  with assms show ?thesis by (auto simp: writer_step_fields split: if_splits)
next
  case (EvReader c now now' input)
  show ?thesis
  proof (cases "c < next_client s")
    case False
    with assms EvReader show ?thesis by simp
  next
    case True
    from assms(1) EvReader have "sys_step sp env (EvReader c now now' input) s = Inr s'" by simp
    from sys_step_reader [OF this True] obtain s1 where s1: "lands (reader_step env now now' c input s) s1"
      "s' = s1 \<or> s' = s1\<lparr>reader_done := (reader_done s1)(c := True)\<rparr>"
      by blast
    from reader_step_frame [OF s1(1)] assms(2) have "distinct (map fst (hub_clients s1))"
      by (simp add: step_frame_def)
    with s1(2) show ?thesis by auto
  qed
qed

lemma sys_run_distinct:
  "sys_run sp env es s = Inr s' \<Longrightarrow> distinct (map fst (hub_clients s))
     \<Longrightarrow> distinct (map fst (hub_clients s'))"
proof (induction es arbitrary: s)
  case Nil
  then show ?case by simp
next
  case (Cons e es)
  from Cons.prems(1) obtain s1 where s1: "sys_step sp env e s = Inr s1" "sys_run sp env es s1 = Inr s'"
    by (auto split: sum.splits)
  from sys_step_distinct [OF s1(1) Cons.prems(2)] Cons.IH [OF s1(2)] show ?case by blast
qed

lemma sys_step_left_unregistered:
  assumes "sys_step sp env e s = Inr s'" "left_unregistered c s"
  shows "left_unregistered c s'"
proof (cases e)
  case (EvAccept r up)
  with assms show ?thesis
    using accept_fields(2) [of s sp r up] accept_fields(3) [of c s sp r up]
    by (auto simp: left_unregistered_def registered_accept)
next
  case (EvWriter k w)
  with assms show ?thesis
    by (auto simp: left_unregistered_def registered_writer_step writer_step_fields split: if_splits)
next
  case (EvReader k now now' input)
  show ?thesis
  proof (cases "k < next_client s")
    case False
    with assms EvReader show ?thesis by simp
  next
    case alloc: True
    show ?thesis
    proof (cases "k = c")
      case True
      with assms EvReader show ?thesis
        by (auto simp: left_unregistered_def reader_step_def split: if_splits)
    next
      case False
      from assms(1) EvReader have "sys_step sp env (EvReader k now now' input) s = Inr s'" by simp
      from sys_step_reader [OF this alloc] obtain s1 where s1: "lands (reader_step env now now' k input s) s1"
        "s' = s1 \<or> s' = s1\<lparr>reader_done := (reader_done s1)(k := True)\<rparr>"
        by blast
      from reader_step_frame [OF s1(1)] assms(2) False have "left_unregistered c s1"
        by (auto simp: left_unregistered_def step_frame_def)
      with s1(2) False show ?thesis by (auto simp: left_unregistered_def)
    qed
  qed
qed

lemma sys_run_left_unregistered:
  "sys_run sp env es s = Inr s' \<Longrightarrow> left_unregistered c s \<Longrightarrow> left_unregistered c s'"
proof (induction es arbitrary: s)
  case Nil
  then show ?case by simp
next
  case (Cons e es)
  from Cons.prems(1) obtain s1 where s1: "sys_step sp env e s = Inr s1" "sys_run sp env es s1 = Inr s'"
    by (auto split: sum.splits)
  from sys_step_left_unregistered [OF s1(1) Cons.prems(2)] Cons.IH [OF s1(2)] show ?case by blast
qed

lemma reader_exit:
  assumes "\<not> reader_done s c" "parked s c = None"
    and run: "reader_step env now now' c ReadError s = Inr s'"
  shows "reader_done s' c \<and> (userID s c \<noteq> 0 \<longrightarrow> c \<notin> registered s')
     \<and> (userID s c = 0 \<longrightarrow> s' = s\<lparr>reader_done := (reader_done s)(c := True)\<rparr>)"
proof (cases "userID s c = 0")
  case True
  with assms show ?thesis by (auto simp: reader_step_def)
next
  case False
  with assms obtain s1 where s1: "hub_unregister c s = Inr s1"
    "s' = s1\<lparr>reader_done := (reader_done s1)(c := True)\<rparr>"
    by (auto simp: reader_step_def split: sum.splits)
  from hub_unregister_registered [OF s1(1)] have "c \<notin> registered s1" by simp
  with s1(2) False show ?thesis by simp
qed

subsection \<open>Registered means authenticated\<close>

lemma broadcast_over_fields:
  "broadcast_over order m s = Inr s' \<Longrightarrow> userID s' = userID s \<and> reader_done s' = reader_done s"
proof (induction order arbitrary: s)
  case Nil
  then show ?case by simp
next
  case (Cons c cs)
  show ?case
  proof (cases "try_send m (send s c)")
    case (Inl p)
    with Cons.prems show ?thesis by simp
  next
    case (Inr r)
    show ?thesis
    proof (cases r)
      case (Some ch)
      with Inr Cons.prems have "broadcast_over cs m (s\<lparr>send := (send s)(c := ch)\<rparr>) = Inr s'"
        by simp
      from Cons.IH [OF this] show ?thesis by simp
    next
      case None
      with Inr Cons.prems obtain ch where
        "broadcast_over cs m (s\<lparr>send := (send s)(c := ch),
            hub_clients := AList.delete c (hub_clients s)\<rparr>) = Inr s'"
        by (auto split: sum.splits)
      from Cons.IH [OF this] show ?thesis by simp
    qed
  qed
qed

lemma hub_broadcast_fields:
  "hub_broadcast m s1 = Inr s' \<Longrightarrow> userID s' = userID s1 \<and> reader_done s' = reader_done s1"
  unfolding hub_broadcast_def by (rule broadcast_over_fields)

lemma client_send_uid_done:
  "lands (client_send c m s1) s' \<Longrightarrow> userID s' = userID s1 \<and> reader_done s' = reader_done s1"
  by (simp add: client_send_fields)

lemma on_auth_uid_done:
  assumes "lands (on_auth env now now' c wsMsg s) s'"
  shows "reader_done s' = reader_done s
     \<and> (userID s' c = userID s c
         \<or> (\<exists>uid uname d1. handleAuth env (decode_auth env (Payload wsMsg)) (db s) = (Inr (uid, uname), d1)
               \<and> userID s' c = uid))"
  using assms unfolding on_auth_def Let_def
  by (auto split: prod.splits sum.splits if_splits dest!: client_send_uid_done)

lemma nonauth_uid_done:
  assumes "Type wsMsg \<noteq> ''auth''" "lands (dispatch env now now' c wsMsg s) s'"
  shows "reader_done s' = reader_done s \<and> userID s' = userID s"
  using assms
  unfolding dispatch_def on_typing_def on_check_user_def on_create_conversation_def
    on_get_messages_def on_read_receipt_def on_send_message_def on_get_conversations_def
    on_add_participant_def on_rename_conversation_def on_leave_conversation_def Let_def
  by (auto split: if_splits prod.splits sum.splits option.splits
      dest!: client_send_uid_done hub_broadcast_fields)

lemma dispatch_uid_done:
  assumes "lands (dispatch env now now' c wsMsg s) s'"
  shows "reader_done s' = reader_done s
     \<and> (userID s' c = userID s c
         \<or> (\<exists>uid uname d1. handleAuth env (decode_auth env (Payload wsMsg)) (db s) = (Inr (uid, uname), d1)
               \<and> userID s' c = uid))"
proof (cases "Type wsMsg = ''auth''")
  case True
  with assms have "lands (on_auth env now now' c wsMsg s) s'" by (simp add: dispatch_def)
  then show ?thesis by (rule on_auth_uid_done)
next
  case False
  from nonauth_uid_done [OF False assms] show ?thesis by simp
qed

lemma reader_step_uid:
  assumes run: "lands (reader_step env now now' c input s) s'"
  shows "userID s' c = userID s c
     \<or> (\<exists>(m :: WSMessage) uid uname d1.
           handleAuth env (decode_auth env (Payload m)) (db s) = (Inr (uid, uname), d1)
           \<and> userID s' c = uid)"
proof (cases "reader_done s c")
  case True
  from reader_step_done [OF this] run show ?thesis by simp
next
  case running: False
  show ?thesis
  proof (cases "parked s c")
    case (Some m)
    from reader_step_parked [OF running Some run] show ?thesis by simp
  next
    case None
    show ?thesis
    proof (cases "if 0 < conn_closes s c then ReadError else input")
      case ReadError
      from run have r: "lands (if userID s c \<noteq> 0
        then (case hub_unregister c s of
                Inl p \<Rightarrow> Inl (HubPanic p)
              | Inr s1 \<Rightarrow> Inr (s1\<lparr>reader_done := (reader_done s1)(c := True)\<rparr>))
        else Inr (s\<lparr>reader_done := (reader_done s)(c := True)\<rparr>)) s'"
        unfolding reader_step_error [OF running None ReadError] .
      then show ?thesis
        by (auto split: if_splits sum.splits elim!: hub_unregister_cases)
    next
      case (ReadMessage b)
      from run have d: "lands (case unmarshal_msg env b of
            None \<Rightarrow> Inr s
          | Some wsMsg \<Rightarrow> dispatch env now now' c wsMsg s) s'"
        unfolding reader_step_message [OF running None ReadMessage] .
      show ?thesis
      proof (cases "unmarshal_msg env b")
        case None
        with d show ?thesis by simp
      next
        case (Some m)
        with d have "lands (dispatch env now now' c m s) s'" by simp
        from dispatch_uid_done [OF this] show ?thesis by auto
      qed
    qed
  qed
qed

lemma reader_step_registered_ok:
  assumes ids: "ids_nonzero env" and c: "c < next_client s"
    and run: "lands (reader_step env now now' c input s) s'"
    and ok: "registered_ok s"
  shows "registered_ok s'"
proof -
  from run have fr: "step_frame c s s'" by (rule reader_step_frame)
  have own: "userID s' c \<noteq> 0" if reg': "c \<in> registered s'"
  proof (cases "c \<in> registered s")
    case True
    with ok have "userID s c \<noteq> 0" by (simp add: registered_ok_def)
    with reader_step_uid [OF run] ids show ?thesis unfolding ids_nonzero_def by metis
  next
    case False
    from reader_step_registers [OF run False reg'] ids show ?thesis
      unfolding ids_nonzero_def by metis
  qed
  show ?thesis
    unfolding registered_ok_def
  proof
    fix k assume k: "k \<in> registered s'"
    show "userID s' k \<noteq> 0 \<and> k < next_client s'"
    proof (cases "k = c")
      case True
      with own k c fr show ?thesis by (simp add: step_frame_def)
    next
      case False
      with fr k have "k \<in> registered s" "userID s' k = userID s k" "next_client s' = next_client s"
        by (auto simp: step_frame_def)
      with ok show ?thesis by (simp add: registered_ok_def)
    qed
  qed
qed

lemma registered_ok_upd [simp]:
  "registered_ok (s\<lparr>reader_done := r\<rparr>) = registered_ok s"
  by (simp add: registered_ok_def)

lemma sys_step_registered_ok:
  assumes "ids_nonzero env" "sys_step sp env e s = Inr s'" "registered_ok s"
  shows "registered_ok s'"
proof (cases e)
  case (EvAccept r up)
  let ?s' = "snd (handleWebSocket_accept sp r up s)"
  from assms EvAccept have s': "s' = ?s'" by simp
  show ?thesis
    unfolding registered_ok_def s' registered_accept
  proof
    fix k assume k: "k \<in> registered s"
    with assms(3) have ok: "userID s k \<noteq> 0" "k < next_client s"
      by (simp_all add: registered_ok_def)
    then have "k \<noteq> next_client s" by simp
    from accept_fields(3) [OF this, of sp r up] accept_fields(2) [of s sp r up] ok
    show "userID ?s' k \<noteq> 0 \<and> k < next_client ?s'"
      by simp
  qed
next
  case (EvWriter c w)
  with assms show ?thesis
    by (auto simp: registered_ok_def registered_writer_step writer_step_fields split: if_splits)
next
  case (EvReader c now now' input)
  show ?thesis
  proof (cases "c < next_client s")
    case False
    with assms EvReader show ?thesis by simp
  next
    case True
    from assms(2) EvReader have "sys_step sp env (EvReader c now now' input) s = Inr s'" by simp
    from sys_step_reader [OF this True] obtain s1 where s1: "lands (reader_step env now now' c input s) s1"
      "s' = s1 \<or> s' = s1\<lparr>reader_done := (reader_done s1)(c := True)\<rparr>"
      by blast
    from reader_step_registered_ok [OF assms(1) True s1(1) assms(3)] s1(2) show ?thesis by auto
  qed
qed

lemma sys_run_registered_ok:
  "ids_nonzero env \<Longrightarrow> sys_run sp env es s = Inr s' \<Longrightarrow> registered_ok s \<Longrightarrow> registered_ok s'"
proof (induction es arbitrary: s)
  case Nil
  then show ?case by simp
next
  case (Cons e es)
  from Cons.prems(2) obtain s1 where s1: "sys_step sp env e s = Inr s1" "sys_run sp env es s1 = Inr s'"
    by (auto split: sum.splits)
  from sys_step_registered_ok [OF Cons.prems(1) s1(1) Cons.prems(3)] Cons.IH [OF Cons.prems(1) s1(2)]
  show ?case by blast
qed

subsection \<open>Evaluating the sample server\<close>

lemmas sample_eval =
  sample_server_def init_server_def sample_env_def sample_request_def sample_split_def
  sample_marshal_def newRateLimiter_def env_int_def
  handleWebSocket_accept_def getClientIP_def canConnect_def conn_count_def addConnection_def
  removeConnection_def canAuth_def attempts_of_def after_cutoff_def minute_def
  reader_step_def dispatch_def on_auth_def client_send_def try_send_def chan_close_def
  make_chan_def chan_cap_def hub_register_def hub_unregister_def hub_broadcast_def in_hub_def
  writer_step_def writer_exit_def registered_def Let_def

lemma ids_nonzero_sample: "ids_nonzero sample_env"
  by (auto simp: ids_nonzero_def sample_env_def split: if_splits)

lemmas sample_events = ev_accept_def ev_auth_def ev_drop_def sample_run_def sample_hub_run_def

subsection \<open>A removed client that authenticates again\<close>

lemma broadcast_over_closed:
  "c \<in> set order \<Longrightarrow> closed (send s c) \<Longrightarrow> broadcast_over order m s = Inl SendOnClosedChannel"
proof (induction order arbitrary: s)
  case Nil
  then show ?case by simp
next
  case (Cons k ks)
  show ?case
  proof (cases "closed (send s k)")
    case True
    then show ?thesis by (simp add: try_send_def)
  next
    case False
    with Cons.prems have kc: "k \<noteq> c" "c \<in> set ks" by auto
    show ?thesis
    proof (cases "length (buf (send s k)) < chan_cap")
      case True
      let ?s1 = "s\<lparr>send := (send s)(k := (send s k)\<lparr>buf := buf (send s k) @ [m]\<rparr>)\<rparr>"
      have "broadcast_over (k # ks) m s = broadcast_over ks m ?s1"
        using True False by (simp add: try_send_def)
      also have "\<dots> = Inl SendOnClosedChannel"
        using Cons.prems(2) kc by (intro Cons.IH) auto
      finally show ?thesis .
    next
      case full: False
      let ?s1 = "s\<lparr>send := (send s)(k := (send s k)\<lparr>closed := True\<rparr>),
                   hub_clients := AList.delete k (hub_clients s)\<rparr>"
      have "broadcast_over (k # ks) m s = broadcast_over ks m ?s1"
        using full False by (simp add: try_send_def chan_close_def)
      also have "\<dots> = Inl SendOnClosedChannel"
        using Cons.prems(2) kc by (intro Cons.IH) auto
      finally show ?thesis .
    qed
  qed
qed

lemma hub_broadcast_closed:
  "c \<in> registered s \<Longrightarrow> closed (send s c) \<Longrightarrow> hub_broadcast m s = Inl SendOnClosedChannel"
  unfolding hub_broadcast_def by (rule broadcast_over_closed) (simp_all add: registered_def)

lemma hub_broadcast_closed_db:
  "c \<in> registered s \<Longrightarrow> closed (send s c) \<Longrightarrow> hub_broadcast m (s\<lparr>db := d\<rparr>) = Inl SendOnClosedChannel"
  by (rule hub_broadcast_closed [of c]) simp_all

lemma hub_reregister:
  "hub_run [Register c, Unregister c, Register c] (init_server rl d)
     = Inr ((init_server rl d)\<lparr>hub_clients := [(c, True)],
              send := (\<lambda>_. make_chan)(c := make_chan\<lparr>closed := True\<rparr>)\<rparr>)"
  by (simp add: hub_register_def hub_unregister_def chan_close_def init_server_def make_chan_def)

lemma typing_crash:
  assumes "k < next_client s" "\<not> reader_done s k" "parked s k = None" "conn_closes s k = 0"
    and "userID s k \<noteq> 0" "unmarshal_msg env b = Some m" "Type m = ''typing''"
    and "c \<in> registered s" "closed (send s c)"
  shows "sys_step sp env (EvReader k now now' (ReadMessage b)) s = Inl SendOnClosedChannel"
  using assms
  by (simp add: reader_step_def dispatch_def on_typing_def hub_broadcast_closed [of c] in_hub_def)

lemma reauth_removed:
  assumes "c < next_client s" "\<not> reader_done s c" "parked s c = None" "conn_closes s c = 0"
    and "closed (send s c)" "unmarshal_msg env b = Some m" "Type m = ''auth''"
    and ok: "fst (canAuth now now' (clientIP s c) (limiter s))"
    and "handleAuth env (decode_auth env (Payload m)) (db s) = (Inr (uid, uname), d1)"
  shows "sys_step sp env (EvReader c now now' (ReadMessage b)) s
     = Inr ((hub_register c s)\<lparr>limiter := snd (canAuth now now' (clientIP s c) (limiter s)),
              userID := (userID s)(c := uid), username := (username s)(c := uname),
              db := snd (getUserConversations env uid d1),
              reader_done := (reader_done s)(c := True)\<rparr>)"
proof -
  obtain rl where ca: "canAuth now now' (clientIP s c) (limiter s) = (True, rl)"
    using ok by (cases "canAuth now now' (clientIP s c) (limiter s)") auto
  obtain convs d2 where gc: "getUserConversations env uid d1 = (convs, d2)"
    by (cases "getUserConversations env uid d1")
  from assms ca gc show ?thesis
    by (simp add: reader_step_def dispatch_def on_auth_def client_send_def try_send_def Let_def
        hub_register_def)
qed

lemma client_send_keeps:
  "lands (client_send k m s1) s' \<Longrightarrow> c \<noteq> k \<Longrightarrow> c \<in> registered s1 \<and> send s1 c = x
     \<Longrightarrow> c \<in> registered s' \<and> send s' c = x"
  by (auto simp: client_send_def split: sum.splits option.splits)

lemma on_auth_keeps:
  "lands (on_auth env now now' k wsMsg s) s' \<Longrightarrow> c \<noteq> k \<Longrightarrow> c \<in> registered s
     \<Longrightarrow> c \<in> registered s' \<and> send s' c = send s c"
  unfolding on_auth_def Let_def
  apply (clarsimp split: prod.splits sum.splits if_splits)
  apply ((erule client_send_keeps; simp add: registered_hub_register)+)
  done

lemma on_typing_keeps:
  "lands (on_typing env k wsMsg s) s' \<Longrightarrow> c \<in> registered s \<Longrightarrow> closed (send s c)
     \<Longrightarrow> c \<in> registered s' \<and> send s' c = send s c"
  unfolding on_typing_def Let_def
  by (auto split: if_splits simp: hub_broadcast_closed [of c])

lemma on_check_user_keeps:
  "lands (on_check_user env k wsMsg s) s' \<Longrightarrow> c \<noteq> k \<Longrightarrow> c \<in> registered s
     \<Longrightarrow> c \<in> registered s' \<and> send s' c = send s c"
  unfolding on_check_user_def Let_def
  apply (clarsimp split: prod.splits)
  apply ((erule client_send_keeps; simp)+)
  done

lemma on_create_conversation_keeps:
  "lands (on_create_conversation env k wsMsg s) s' \<Longrightarrow> c \<noteq> k \<Longrightarrow> c \<in> registered s
     \<Longrightarrow> c \<in> registered s' \<and> send s' c = send s c"
  unfolding on_create_conversation_def Let_def
  apply (clarsimp split: prod.splits sum.splits if_splits)
  apply ((erule client_send_keeps; simp)+)
  done

lemma on_get_messages_keeps:
  "lands (on_get_messages env k wsMsg s) s' \<Longrightarrow> c \<noteq> k \<Longrightarrow> c \<in> registered s
     \<Longrightarrow> c \<in> registered s' \<and> send s' c = send s c"
  unfolding on_get_messages_def Let_def
  apply (clarsimp split: prod.splits if_splits)
  apply ((erule client_send_keeps; simp)+)
  done

lemma on_read_receipt_keeps:
  "lands (on_read_receipt env k wsMsg s) s' \<Longrightarrow> c \<in> registered s
     \<Longrightarrow> c \<in> registered s' \<and> send s' c = send s c"
  unfolding on_read_receipt_def Let_def
  by (auto split: if_splits)

lemma on_send_message_keeps:
  "lands (on_send_message env k wsMsg s) s' \<Longrightarrow> c \<in> registered s \<Longrightarrow> closed (send s c)
     \<Longrightarrow> c \<in> registered s' \<and> send s' c = send s c"
  unfolding on_send_message_def Let_def
  by (auto split: prod.splits sum.splits if_splits simp: hub_broadcast_closed_db [of c])

lemma on_get_conversations_keeps:
  "lands (on_get_conversations env k wsMsg s) s' \<Longrightarrow> c \<noteq> k \<Longrightarrow> c \<in> registered s
     \<Longrightarrow> c \<in> registered s' \<and> send s' c = send s c"
  unfolding on_get_conversations_def Let_def
  apply (clarsimp split: prod.splits if_splits)
  apply ((erule client_send_keeps; simp)+)
  done

lemma on_add_participant_keeps:
  "lands (on_add_participant env k wsMsg s) s' \<Longrightarrow> c \<noteq> k \<Longrightarrow> c \<in> registered s
     \<Longrightarrow> c \<in> registered s' \<and> send s' c = send s c"
  unfolding on_add_participant_def Let_def
  apply (clarsimp split: prod.splits option.splits if_splits)
  apply ((erule client_send_keeps; simp)+)
  done

lemma on_rename_conversation_keeps:
  "lands (on_rename_conversation env k wsMsg s) s' \<Longrightarrow> c \<noteq> k \<Longrightarrow> c \<in> registered s
     \<Longrightarrow> c \<in> registered s' \<and> send s' c = send s c"
  unfolding on_rename_conversation_def Let_def
  apply (clarsimp split: prod.splits if_splits)
  apply ((erule client_send_keeps; simp)+)
  done

lemma on_leave_conversation_keeps:
  "lands (on_leave_conversation env k wsMsg s) s' \<Longrightarrow> c \<noteq> k \<Longrightarrow> c \<in> registered s
     \<Longrightarrow> c \<in> registered s' \<and> send s' c = send s c"
  unfolding on_leave_conversation_def Let_def
  apply (clarsimp split: prod.splits if_splits)
  apply ((erule client_send_keeps; simp)+)
  done

lemma dispatch_keeps:
  assumes "lands (dispatch env now now' k wsMsg s) s'" "c \<noteq> k" "c \<in> registered s" "closed (send s c)"
  shows "c \<in> registered s' \<and> send s' c = send s c"
  using assms unfolding dispatch_def
  by (auto split: if_splits
      dest: on_auth_keeps on_typing_keeps on_check_user_keeps on_create_conversation_keeps
        on_get_messages_keeps on_read_receipt_keeps on_send_message_keeps
        on_get_conversations_keeps on_add_participant_keeps on_rename_conversation_keeps
        on_leave_conversation_keeps)

lemma reader_step_keeps:
  assumes run: "lands (reader_step env now now' k input s) s'" and ck: "c \<noteq> k"
    and c: "c \<in> registered s" "closed (send s c)"
  shows "c \<in> registered s' \<and> send s' c = send s c"
proof (cases "reader_done s k")
  case True
  from reader_step_done [OF this] run c show ?thesis by simp
next
  case running: False
  show ?thesis
  proof (cases "parked s k")
    case (Some m)
    with running run ck c show ?thesis
      by (auto simp: reader_step_def registered_def split: sum.splits option.splits)
  next
    case None
    show ?thesis
    proof (cases "if 0 < conn_closes s k then ReadError else input")
      case ReadError
      from run have r: "lands (if userID s k \<noteq> 0
        then (case hub_unregister k s of
                Inl p \<Rightarrow> Inl (HubPanic p)
              | Inr s1 \<Rightarrow> Inr (s1\<lparr>reader_done := (reader_done s1)(k := True)\<rparr>))
        else Inr (s\<lparr>reader_done := (reader_done s)(k := True)\<rparr>)) s'"
        unfolding reader_step_error [OF running None ReadError] .
      show ?thesis
      proof (cases "userID s k \<noteq> 0")
        case True
        with r obtain s1 where s1: "hub_unregister k s = Inr s1"
          "s' = s1\<lparr>reader_done := (reader_done s1)(k := True)\<rparr>"
          by (auto split: sum.splits)
        from s1(1) c ck have "c \<in> registered s1 \<and> send s1 c = send s c"
          by (cases rule: hub_unregister_cases) (auto simp: registered_def AList.delete_eq)
        with s1(2) show ?thesis by simp
      next
        case False
        with r c show ?thesis by auto
      qed
    next
      case (ReadMessage b)
      from run have d: "lands (case unmarshal_msg env b of
            None \<Rightarrow> Inr s
          | Some wsMsg \<Rightarrow> dispatch env now now' k wsMsg s) s'"
        unfolding reader_step_message [OF running None ReadMessage] .
      show ?thesis
      proof (cases "unmarshal_msg env b")
        case None
        with d c show ?thesis by simp
      next
        case (Some m)
        with d have "lands (dispatch env now now' k m s) s'" by simp
        from dispatch_keeps [OF this ck c] show ?thesis .
      qed
    qed
  qed
qed

lemma writer_step_closed: "closed (send (writer_step c w s) k) = closed (send s k)"
  by (simp add: writer_step_def writer_exit_def Let_def split: list.splits)

lemma sys_step_orphaned:
  assumes "sys_step sp env e s = Inr s'" "orphaned c s"
  shows "orphaned c s'"
proof (cases e)
  case (EvAccept r up)
  from assms(2) have "c \<noteq> next_client s" by (simp add: orphaned_def)
  from accept_fields(3) [OF this, of sp r up] accept_fields(2) [of s sp r up]
    registered_accept [of sp r up s] assms EvAccept
  show ?thesis by (auto simp: orphaned_def)
next
  case (EvWriter k w)
  with assms show ?thesis
    by (auto simp: orphaned_def registered_writer_step writer_step_fields(1-4) writer_step_closed
        split: if_splits)
next
  case (EvReader k now now' input)
  show ?thesis
  proof (cases "k < next_client s")
    case False
    with assms EvReader show ?thesis by simp
  next
    case alloc: True
    show ?thesis
    proof (cases "k = c")
      case True
      with assms EvReader show ?thesis
        by (auto simp: orphaned_def reader_step_done split: if_splits)
    next
      case False
      then have ck: "c \<noteq> k" by simp
      from assms(1) EvReader have "sys_step sp env (EvReader k now now' input) s = Inr s'" by simp
      from sys_step_reader [OF this alloc] obtain s1 where s1: "lands (reader_step env now now' k input s) s1"
        "s' = s1 \<or> s' = s1\<lparr>reader_done := (reader_done s1)(k := True)\<rparr>"
        by blast
      from assms(2) have c: "c \<in> registered s" "closed (send s c)" by (simp_all add: orphaned_def)
      from reader_step_keeps [OF s1(1) ck c] reader_step_frame [OF s1(1)] assms(2) ck
      have "orphaned c s1"
        by (auto simp: orphaned_def step_frame_def)
      with s1(2) ck show ?thesis by (auto simp: orphaned_def)
    qed
  qed
qed

lemma sys_run_orphaned:
  "sys_run sp env es s = Inr s' \<Longrightarrow> orphaned c s \<Longrightarrow> orphaned c s'"
proof (induction es arbitrary: s)
  case Nil
  then show ?case by simp
next
  case (Cons e es)
  from Cons.prems(1) obtain s1 where s1: "sys_step sp env e s = Inr s1" "sys_run sp env es s1 = Inr s'"
    by (auto split: sum.splits)
  from sys_step_orphaned [OF s1(1) Cons.prems(2)] Cons.IH [OF s1(2)] show ?case by blast
qed

lemma sys_run_append:
  "sys_run sp env (es @ es') s
     = (case sys_run sp env es s of Inl p \<Rightarrow> Inl p | Inr s1 \<Rightarrow> sys_run sp env es' s1)"
  by (induction es arbitrary: s) (simp_all split: sum.splits)

lemma typing_step:
  assumes "c < next_client s" "\<not> reader_done s c" "parked s c = None" "conn_closes s c = 0"
    and "userID s c \<noteq> 0" "unmarshal_msg env b = Some m" "Type m = ''typing''"
    and "hub_clients s = [(c, True)]" "\<not> closed (send s c)"
  shows "sys_step sp env (EvReader c now now' (ReadMessage b)) s =
     (if length (buf (send s c)) < chan_cap
      then Inr (s\<lparr>send := (send s)(c := (send s c)\<lparr>buf := buf (send s c) @
             [marshal env (Resp_typing (decode_conversation_id env (Payload m)) (userID s c)
                (username s c))]\<rparr>)\<rparr>)
      else Inr (s\<lparr>send := (send s)(c := (send s c)\<lparr>closed := True\<rparr>), hub_clients := []\<rparr>))"
  using assms
  by (simp add: reader_step_def dispatch_def on_typing_def hub_broadcast_def in_hub_def
      try_send_def chan_close_def Let_def)

lemma typing_fill:
  assumes "c < next_client s" "\<not> reader_done s c" "parked s c = None" "conn_closes s c = 0"
    and "userID s c \<noteq> 0" "unmarshal_msg env b = Some m" "Type m = ''typing''"
    and "hub_clients s = [(c, True)]" "\<not> closed (send s c)"
    and "length (buf (send s c)) + n \<le> chan_cap"
  shows "sys_run sp env (replicate n (EvReader c now now' (ReadMessage b))) s =
     Inr (s\<lparr>send := (send s)(c := (send s c)\<lparr>buf := buf (send s c) @
            replicate n (marshal env (Resp_typing (decode_conversation_id env (Payload m))
              (userID s c) (username s c)))\<rparr>)\<rparr>)"
  using assms
proof (induction n arbitrary: s)
  case 0
  show ?case by simp
next
  case (Suc n)
  let ?msg = "marshal env (Resp_typing (decode_conversation_id env (Payload m)) (userID s c) (username s c))"
  let ?s1 = "s\<lparr>send := (send s)(c := (send s c)\<lparr>buf := buf (send s c) @ [?msg]\<rparr>)\<rparr>"
  from Suc.prems have room: "length (buf (send s c)) < chan_cap" by simp
  have st: "sys_step sp env (EvReader c now now' (ReadMessage b)) s = Inr ?s1"
    using typing_step [OF Suc.prems(1-9), of sp now now'] room by simp
  have "sys_run sp env (replicate (Suc n) (EvReader c now now' (ReadMessage b))) s
      = sys_run sp env (replicate n (EvReader c now now' (ReadMessage b))) ?s1"
    by (simp only: replicate_Suc sys_run.simps st sum.case)
  also have "\<dots> =
     Inr (?s1\<lparr>send := (send ?s1)(c := (send ?s1 c)\<lparr>buf := buf (send ?s1 c) @
            replicate n (marshal env (Resp_typing (decode_conversation_id env (Payload m))
              (userID ?s1 c) (username ?s1 c)))\<rparr>)\<rparr>)"
    using Suc.prems by (intro Suc.IH) simp_all
  also have "?s1\<lparr>send := (send ?s1)(c := (send ?s1 c)\<lparr>buf := buf (send ?s1 c) @
            replicate n (marshal env (Resp_typing (decode_conversation_id env (Payload m))
              (userID ?s1 c) (username ?s1 c)))\<rparr>)\<rparr>
      = s\<lparr>send := (send s)(c := (send s c)\<lparr>buf := buf (send s c) @ replicate (Suc n) ?msg\<rparr>)\<rparr>"
    by simp
  finally show ?case .
qed

lemma sample_typing:
  "unmarshal_msg sample_env ''typing:x'' = Some \<lparr>Type = ''typing'', Payload = ''x''\<rparr>"
  by (simp add: sample_env_def)

lemma run_authed:
  "sys_run sample_split sample_env [ev_accept, ev_auth] sample_server = Inr sample_authed"
  by (simp add: sample_events sample_eval sample_authed_def) (simp add: fun_eq_iff)

lemma run_full:
  "sys_run sample_split sample_env (replicate 255 ev_typing) sample_authed = Inr sample_full"
proof -
  have "sys_run sample_split sample_env (replicate 255 (EvReader 0 2 2 (ReadMessage ''typing:x''))) sample_authed =
     Inr (sample_authed\<lparr>send := (send sample_authed)(0 := (send sample_authed 0)\<lparr>buf := buf (send sample_authed 0) @
            replicate 255 (marshal sample_env (Resp_typing (decode_conversation_id sample_env (Payload \<lparr>Type = ''typing'', Payload = ''x''\<rparr>))
              (userID sample_authed 0) (username sample_authed 0)))\<rparr>)\<rparr>)"
    by (rule typing_fill [OF _ _ _ _ _ sample_typing])
      (simp_all add: sample_authed_def chan_cap_def)
  then show ?thesis
    by (simp add: ev_typing_def sample_full_def sample_authed_def sample_env_def sample_marshal_def)
qed

lemma run_removed:
  "sys_step sample_split sample_env ev_typing sample_full = Inr sample_removed"
proof -
  have "sys_step sample_split sample_env (EvReader 0 2 2 (ReadMessage ''typing:x'')) sample_full =
     (if length (buf (send sample_full 0)) < chan_cap
      then Inr (sample_full\<lparr>send := (send sample_full)(0 := (send sample_full 0)\<lparr>buf := buf (send sample_full 0) @
             [marshal sample_env (Resp_typing (decode_conversation_id sample_env (Payload \<lparr>Type = ''typing'', Payload = ''x''\<rparr>)) (userID sample_full 0)
                (username sample_full 0))]\<rparr>)\<rparr>)
      else Inr (sample_full\<lparr>send := (send sample_full)(0 := (send sample_full 0)\<lparr>closed := True\<rparr>), hub_clients := []\<rparr>))"
    by (rule typing_step [OF _ _ _ _ _ sample_typing])
      (simp_all add: sample_full_def sample_authed_def)
  then show ?thesis
    by (simp add: ev_typing_def sample_removed_def sample_full_def sample_authed_def chan_cap_def)
qed

lemma replicate_256: "replicate 256 x = replicate 255 x @ [x]"
proof -
  have "(256 :: nat) = Suc 255" by simp
  then show ?thesis by (simp only: replicate_Suc replicate_append_same)
qed

lemma run_flood: "sys_run sample_split sample_env flood sample_server = Inr sample_removed"
  unfolding flood_def replicate_256 sys_run_append run_authed sum.case run_full
  by (simp add: run_removed)

lemma run_orphan: "sys_step sample_split sample_env ev_reauth sample_removed = Inr sample_orphan"
proof -
  have um: "unmarshal_msg sample_env ''auth:alice,pw1'' = Some \<lparr>Type = ''auth'', Payload = ''alice,pw1''\<rparr>"
    by (simp add: sample_env_def)
  have "sys_step sample_split sample_env (EvReader 0 3 3 (ReadMessage ''auth:alice,pw1'')) sample_removed
     = Inr ((hub_register 0 sample_removed)\<lparr>limiter := snd (canAuth 3 3 (clientIP sample_removed 0) (limiter sample_removed)),
              userID := (userID sample_removed)(0 := 1), username := (username sample_removed)(0 := ''alice''),
              db := snd (getUserConversations sample_env 1 [(''alice'', ''pw1''), (''bob'', ''pw2'')]),
              reader_done := (reader_done sample_removed)(0 := True)\<rparr>)"
    by (rule reauth_removed [OF _ _ _ _ _ um])
      (simp_all add: sample_removed_def sample_authed_def sample_env_def canAuth_def Let_def
        attempts_of_def after_cutoff_def minute_def)
  then show ?thesis
    by (simp add: ev_reauth_def sample_orphan_def sample_removed_def sample_authed_def sample_env_def
        hub_register_def canAuth_def Let_def attempts_of_def after_cutoff_def minute_def)
qed

lemma run_two: "sys_run sample_split sample_env newcomer sample_orphan = Inr sample_two"
  by (simp add: newcomer_def sample_orphan_def sample_removed_def sample_authed_def sample_eval
      sample_two_def)
    (simp add: fun_eq_iff)

lemma run_to_orphan:
  "sys_run sample_split sample_env (flood @ [ev_reauth]) sample_server = Inr sample_orphan"
  unfolding sys_run_append run_flood sum.case
  by (simp add: run_orphan)

lemma run_to_two:
  "sys_run sample_split sample_env (flood @ ev_reauth # newcomer) sample_server = Inr sample_two"
proof -
  have "sys_run sample_split sample_env ((flood @ [ev_reauth]) @ newcomer) sample_server = Inr sample_two"
    unfolding sys_run_append [of _ _ "flood @ [ev_reauth]"] run_to_orphan sum.case by (rule run_two)
  then show ?thesis by simp
qed

lemma sample_two_fields:
  "1 < next_client sample_two" "\<not> reader_done sample_two 1" "parked sample_two 1 = None"
  "conn_closes sample_two 1 = 0" "userID sample_two 1 \<noteq> 0"
  "0 \<in> registered sample_two" "closed (send sample_two 0)"
  "1 \<in> registered sample_two" "\<not> closed (send sample_two 1)"
  "length (buf (send sample_two 1)) < chan_cap" "registered sample_two = {0, 1}"
  by (auto simp: sample_two_def sample_orphan_def sample_removed_def sample_authed_def
      registered_def chan_cap_def)

lemma sample_orphan_fields:
  "0 \<in> registered sample_orphan" "reader_done sample_orphan 0" "closed (send sample_orphan 0)"
  "userID sample_orphan 0 = 1" "registered sample_orphan = {0}"
  by (auto simp: sample_orphan_def sample_removed_def sample_authed_def registered_def)

lemma sample_removed_fields:
  "0 < next_client sample_removed" "0 \<notin> registered sample_removed" "closed (send sample_removed 0)"
  "\<not> reader_done sample_removed 0" "parked sample_removed 0 = None" "conn_closes sample_removed 0 = 0"
  "registered sample_removed = {}" "userID sample_removed 0 \<noteq> 0"
  by (auto simp: sample_removed_def sample_authed_def registered_def)

subsection \<open>The registry over all runs\<close>

text \<open>
  Claim C3. After any sequence of register, unregister and broadcast operations on a
  new hub that the hub survives, and after any run of the server's goroutines, the
  registry holds no client twice, and every registered client has a user id other than
  0 (given that \<open>handleAuth\<close> returns no id 0). An unregister that returns leaves its
  client absent, and an unregister of an absent client changes nothing, the client's
  queue included. A client enters the registry only through the \<open>auth\<close> case of its own
  reader, after \<open>canAuth\<close> allowed the attempt and \<open>handleAuth\<close> succeeded. A read error
  on an authenticated connection ends the reader with the client unregistered, and a
  client whose reader has ended unregistered never enters the registry again.

  The register case, however, takes back a client that was removed: on the hub,
  register after unregister leaves the client registered with its queue closed, and a
  broadcast then panics. In the server, a client that a broadcast removed for its full
  queue and that authenticates again on the same connection is registered again; its
  reader panics on the closed queue and is gone, and in every continuation of the run
  the client stays in the registry, its reader returned and its queue closed. The run
  \<open>flood @ [ev_reauth]\<close> on the sample server ends in such a state.
\<close>

theorem registry_invariants:
  "(hub_run ops (init_server rl d) = Inr s1 \<longrightarrow> distinct (map fst (hub_clients s1)))
   \<and> (sys_run sp env es (init_server rl d) = Inr s2 \<longrightarrow>
        distinct (map fst (hub_clients s2))
        \<and> (ids_nonzero env \<longrightarrow> (\<forall>k\<in>registered s2. userID s2 k \<noteq> 0)))
   \<and> (hub_unregister c s = Inr s' \<longrightarrow> c \<notin> registered s')
   \<and> (c \<notin> registered s \<longrightarrow> hub_unregister c s = Inr s)
   \<and> (sys_step sp env e s = Inr s' \<and> k \<notin> registered s \<and> k \<in> registered s' \<longrightarrow>
        (\<exists>now now' b m uid uname d1.
           e = EvReader k now now' (ReadMessage b) \<and> unmarshal_msg env b = Some m
           \<and> Type m = ''auth'' \<and> fst (canAuth now now' (clientIP s k) (limiter s))
           \<and> handleAuth env (decode_auth env (Payload m)) (db s) = (Inr (uid, uname), d1)
           \<and> userID s' k = uid))
   \<and> (\<not> reader_done s c \<and> parked s c = None \<and> userID s c \<noteq> 0
        \<and> reader_step env now now' c ReadError s = Inr s' \<longrightarrow>
        reader_done s' c \<and> c \<notin> registered s')
   \<and> (c < next_client s \<and> reader_done s c \<and> c \<notin> registered s
        \<and> sys_run sp env es s = Inr s' \<longrightarrow> c \<notin> registered s')
   \<and> (\<exists>s3. hub_run [Register c, Unregister c, Register c] (init_server rl d) = Inr s3
          \<and> c \<in> registered s3 \<and> closed (send s3 c))
   \<and> hub_run [Register c, Unregister c, Register c, Broadcast msg] (init_server rl d)
       = Inl SendOnClosedChannel
   \<and> (c < next_client s \<and> c \<notin> registered s \<and> closed (send s c) \<and> \<not> reader_done s c
        \<and> parked s c = None \<and> conn_closes s c = 0
        \<and> unmarshal_msg env b = Some wsMsg \<and> Type wsMsg = ''auth''
        \<and> fst (canAuth now now' (clientIP s c) (limiter s))
        \<and> handleAuth env (decode_auth env (Payload wsMsg)) (db s) = (Inr (uid, uname), d1) \<longrightarrow>
        (\<exists>s4. sys_step sp env (EvReader c now now' (ReadMessage b)) s = Inr s4
           \<and> registered s4 = insert c (registered s) \<and> userID s4 c = uid
           \<and> reader_done s4 c \<and> closed (send s4 c)
           \<and> (\<forall>es' s5. sys_run sp env es' s4 = Inr s5 \<longrightarrow>
                 c \<in> registered s5 \<and> reader_done s5 c \<and> closed (send s5 c))))
   \<and> sys_run sample_split sample_env (flood @ [ev_reauth]) sample_server = Inr sample_orphan
   \<and> 0 \<in> registered sample_orphan \<and> reader_done sample_orphan 0 \<and> closed (send sample_orphan 0)"
proof -
  have init: "distinct (map fst (hub_clients (init_server rl d)))" "registered_ok (init_server rl d)"
    by (simp_all add: init_server_def registered_ok_def registered_def)
  have a: "distinct (map fst (hub_clients s1))" if "hub_run ops (init_server rl d) = Inr s1"
    using hub_run_distinct [OF that init(1)] .
  have b: "distinct (map fst (hub_clients s2))
      \<and> (ids_nonzero env \<longrightarrow> (\<forall>k\<in>registered s2. userID s2 k \<noteq> 0))"
    if "sys_run sp env es (init_server rl d) = Inr s2"
    using sys_run_distinct [OF that init(1)] sys_run_registered_ok [OF _ that init(2)]
    by (auto simp: registered_ok_def)
  have c: "c \<notin> registered s'" if "hub_unregister c s = Inr s'"
    using hub_unregister_registered [OF that] by simp
  have d: "hub_unregister c s = Inr s" if "c \<notin> registered s"
    using that by (rule hub_unregister_absent)
  have e: "\<exists>now now' b m uid uname d1.
           e = EvReader k now now' (ReadMessage b) \<and> unmarshal_msg env b = Some m
           \<and> Type m = ''auth'' \<and> fst (canAuth now now' (clientIP s k) (limiter s))
           \<and> handleAuth env (decode_auth env (Payload m)) (db s) = (Inr (uid, uname), d1)
           \<and> userID s' k = uid"
    if "sys_step sp env e s = Inr s'" "k \<notin> registered s" "k \<in> registered s'"
    using sys_step_registers [OF that] by blast
  have f: "reader_done s' c \<and> c \<notin> registered s'"
    if "\<not> reader_done s c" "parked s c = None" "userID s c \<noteq> 0"
      "reader_step env now now' c ReadError s = Inr s'"
    using reader_exit [OF that(1,2,4)] that(3) by blast
  have g: "c \<notin> registered s'"
    if "c < next_client s" "reader_done s c" "c \<notin> registered s" "sys_run sp env es s = Inr s'"
    using sys_run_left_unregistered [OF that(4), of c] that(1-3)
    by (simp add: left_unregistered_def)
  have h: "\<exists>s3. hub_run [Register c, Unregister c, Register c] (init_server rl d) = Inr s3
          \<and> c \<in> registered s3 \<and> closed (send s3 c)"
    unfolding hub_reregister by (simp add: registered_def)
  have i: "hub_run [Register c, Unregister c, Register c, Broadcast msg] (init_server rl d)
       = Inl SendOnClosedChannel"
    by (simp add: hub_register_def hub_unregister_def chan_close_def init_server_def make_chan_def
        hub_broadcast_def try_send_def)
  have j: "\<exists>s4. sys_step sp env (EvReader c now now' (ReadMessage b)) s = Inr s4
           \<and> registered s4 = insert c (registered s) \<and> userID s4 c = uid
           \<and> reader_done s4 c \<and> closed (send s4 c)
           \<and> (\<forall>es' s5. sys_run sp env es' s4 = Inr s5 \<longrightarrow>
                 c \<in> registered s5 \<and> reader_done s5 c \<and> closed (send s5 c))"
    if "c < next_client s" "c \<notin> registered s" "closed (send s c)" "\<not> reader_done s c"
      "parked s c = None" "conn_closes s c = 0"
      "unmarshal_msg env b = Some wsMsg" "Type wsMsg = ''auth''"
      "fst (canAuth now now' (clientIP s c) (limiter s))"
      "handleAuth env (decode_auth env (Payload wsMsg)) (db s) = (Inr (uid, uname), d1)"
  proof -
    let ?s4 = "(hub_register c s)\<lparr>limiter := snd (canAuth now now' (clientIP s c) (limiter s)),
              userID := (userID s)(c := uid), username := (username s)(c := uname),
              db := snd (getUserConversations env uid d1),
              reader_done := (reader_done s)(c := True)\<rparr>"
    have st: "sys_step sp env (EvReader c now now' (ReadMessage b)) s = Inr ?s4"
      using that(1,4,5,6,3,7,8,9,10) by (rule reauth_removed)
    have reg: "registered ?s4 = insert c (registered s)"
      by (simp add: registered_hub_register)
    have fields: "userID ?s4 c = uid" "reader_done ?s4 c" "closed (send ?s4 c)"
      using that(3) by simp_all
    have "orphaned c ?s4"
      unfolding orphaned_def using reg fields that(1) by simp
    then have "\<forall>es' s5. sys_run sp env es' ?s4 = Inr s5 \<longrightarrow>
        c \<in> registered s5 \<and> reader_done s5 c \<and> closed (send s5 c)"
      using sys_run_orphaned [of sp env _ ?s4 _ c] by (auto simp: orphaned_def)
    with st reg fields show ?thesis by blast
  qed
  note k = run_to_orphan sample_orphan_fields(1-3)
  from a b c d e f g h i j k show ?thesis by blast
qed

theorem registry_invariants_witness:
  "hub_run [Register 0, Register 0, Register 1, Unregister 0, Unregister 0] sample_server
     = Inr (sample_hub_run [Register 0, Register 0, Register 1, Unregister 0, Unregister 0])
   \<and> map fst (hub_clients (sample_hub_run [Register 0, Register 0, Register 1, Unregister 0, Unregister 0])) = [1]
   \<and> distinct (map fst (hub_clients (sample_hub_run [Register 0, Register 0, Register 1, Unregister 0, Unregister 0])))
   \<and> sys_run sample_split sample_env [ev_accept, ev_auth] sample_server
       = Inr (sample_run [ev_accept, ev_auth])
   \<and> ids_nonzero sample_env
   \<and> registered (sample_run [ev_accept, ev_auth]) = {0}
   \<and> distinct (map fst (hub_clients (sample_run [ev_accept, ev_auth])))
   \<and> userID (sample_run [ev_accept, ev_auth]) 0 \<noteq> 0
   \<and> \<not> reader_done (sample_run [ev_accept, ev_auth]) 0
   \<and> hub_unregister 0 (sample_run [ev_accept, ev_auth])
       = Inr (projr (hub_unregister 0 (sample_run [ev_accept, ev_auth])))
   \<and> 0 \<notin> registered (projr (hub_unregister 0 (sample_run [ev_accept, ev_auth])))
   \<and> 1 \<notin> registered (sample_run [ev_accept, ev_auth])
   \<and> hub_unregister 1 (sample_run [ev_accept, ev_auth]) = Inr (sample_run [ev_accept, ev_auth])
   \<and> sys_step sample_split sample_env ev_auth (sample_run [ev_accept])
       = Inr (sample_run [ev_accept, ev_auth])
   \<and> 0 \<notin> registered (sample_run [ev_accept])
   \<and> 0 \<in> registered (sample_run [ev_accept, ev_auth])
   \<and> (\<exists>now now' b m uid uname d1.
         ev_auth = EvReader 0 now now' (ReadMessage b) \<and> unmarshal_msg sample_env b = Some m
         \<and> Type m = ''auth''
         \<and> fst (canAuth now now' (clientIP (sample_run [ev_accept]) 0) (limiter (sample_run [ev_accept])))
         \<and> handleAuth sample_env (decode_auth sample_env (Payload m)) (db (sample_run [ev_accept]))
             = (Inr (uid, uname), d1)
         \<and> userID (sample_run [ev_accept, ev_auth]) 0 = uid)
   \<and> parked (sample_run [ev_accept, ev_auth]) 0 = None
   \<and> reader_step sample_env 2 2 0 ReadError (sample_run [ev_accept, ev_auth])
       = Inr (sample_run [ev_accept, ev_auth, ev_drop])
   \<and> reader_done (sample_run [ev_accept, ev_auth, ev_drop]) 0
   \<and> 0 \<notin> registered (sample_run [ev_accept, ev_auth, ev_drop])
   \<and> 0 < next_client (sample_run [ev_accept, ev_auth, ev_drop])
   \<and> sys_run sample_split sample_env [EvWriter 0 True, ev_auth, EvWriter 0 True]
        (sample_run [ev_accept, ev_auth, ev_drop])
       = Inr (sample_run [ev_accept, ev_auth, ev_drop, EvWriter 0 True, ev_auth, EvWriter 0 True])
   \<and> 0 \<notin> registered (sample_run [ev_accept, ev_auth, ev_drop, EvWriter 0 True, ev_auth, EvWriter 0 True])
   \<and> 0 < next_client sample_removed \<and> 0 \<notin> registered sample_removed
   \<and> closed (send sample_removed 0) \<and> \<not> reader_done sample_removed 0
   \<and> parked sample_removed 0 = None \<and> conn_closes sample_removed 0 = 0
   \<and> unmarshal_msg sample_env ''auth:alice,pw1'' = Some \<lparr>Type = ''auth'', Payload = ''alice,pw1''\<rparr>
   \<and> fst (canAuth 3 3 (clientIP sample_removed 0) (limiter sample_removed))
   \<and> handleAuth sample_env (decode_auth sample_env ''alice,pw1'') (db sample_removed)
       = (Inr (1, ''alice''), db sample_removed)
   \<and> sys_step sample_split sample_env (EvReader 0 3 3 (ReadMessage ''auth:alice,pw1'')) sample_removed
       = Inr sample_orphan
   \<and> registered sample_orphan = {0} \<and> userID sample_orphan 0 = 1
   \<and> sys_run sample_split sample_env newcomer sample_orphan = Inr sample_two
   \<and> 0 \<in> registered sample_two \<and> reader_done sample_two 0 \<and> closed (send sample_two 0)"
proof -
  let ?ops = "[Register 0, Register 0, Register 1, Unregister 0, Unregister 0]"
  let ?A = "sample_run [ev_accept]"
  let ?B = "sample_run [ev_accept, ev_auth]"
  let ?C = "sample_run [ev_accept, ev_auth, ev_drop]"
  let ?later = "[EvWriter 0 True, ev_auth, EvWriter 0 True]"
  let ?D = "sample_run [ev_accept, ev_auth, ev_drop, EvWriter 0 True, ev_auth, EvWriter 0 True]"
  let ?U = "projr (hub_unregister 0 ?B)"
  have h1: "hub_run ?ops sample_server = Inr (sample_hub_run ?ops)"
    and v1: "map fst (hub_clients (sample_hub_run ?ops)) = [1]"
    by (simp_all add: sample_events sample_eval)
  have h2: "sys_run sample_split sample_env [ev_accept, ev_auth] sample_server = Inr ?B"
    and v2: "registered ?B = {0}"
    by (simp_all add: sample_events sample_eval)
  have h3: "hub_unregister 0 ?B = Inr ?U"
    by (simp add: sample_events sample_eval)
  have h4: "1 \<notin> registered ?B"
    by (simp add: sample_events sample_eval)
  have h5: "sys_step sample_split sample_env ev_auth ?A = Inr ?B" "0 \<notin> registered ?A" "0 \<in> registered ?B"
    by (simp_all add: sample_events sample_eval)
  have h6: "\<not> reader_done ?B 0" "parked ?B 0 = None" "userID ?B 0 \<noteq> 0"
    "reader_step sample_env 2 2 0 ReadError ?B = Inr ?C"
    by (simp_all add: sample_events sample_eval)
  have h7: "0 < next_client ?C" "reader_done ?C 0" "0 \<notin> registered ?C"
    "sys_run sample_split sample_env ?later ?C = Inr ?D"
    by (simp_all add: sample_events sample_eval)
  note T = registry_invariants [where sp = sample_split and env = sample_env
      and rl = "newRateLimiter (\<lambda>_. []) (\<lambda>_. None)" and d = "[(''alice'', ''pw1''), (''bob'', ''pw2'')]",
      folded sample_server_def]
  from T [where ops = ?ops and ?s1.0 = "sample_hub_run ?ops", THEN conjunct1] h1
  have c1: "distinct (map fst (hub_clients (sample_hub_run ?ops)))" by blast
  from T [where es = "[ev_accept, ev_auth]" and ?s2.0 = ?B, THEN conjunct2, THEN conjunct1] h2 ids_nonzero_sample
  have c2: "distinct (map fst (hub_clients ?B))"
    "\<forall>k\<in>registered ?B. userID ?B k \<noteq> 0"
    by blast+
  from c2(2) h5(3) h6(1) have c2': "userID ?B 0 \<noteq> 0" "\<not> reader_done ?B 0" by blast+
  from T [where c = 0 and s = ?B and s' = ?U, THEN conjunct2, THEN conjunct2, THEN conjunct1] h3
  have c3: "0 \<notin> registered ?U" by blast
  from T [where c = 1 and s = ?B, THEN conjunct2, THEN conjunct2, THEN conjunct2, THEN conjunct1] h4
  have c4: "hub_unregister 1 ?B = Inr ?B" by blast
  from T [where e = ev_auth and s = ?A and s' = ?B and k = 0, THEN conjunct2, THEN conjunct2, THEN conjunct2, THEN conjunct2, THEN conjunct1] h5
  have c5: "\<exists>now now' b m uid uname d1.
         ev_auth = EvReader 0 now now' (ReadMessage b) \<and> unmarshal_msg sample_env b = Some m
         \<and> Type m = ''auth''
         \<and> fst (canAuth now now' (clientIP ?A 0) (limiter ?A))
         \<and> handleAuth sample_env (decode_auth sample_env (Payload m)) (db ?A) = (Inr (uid, uname), d1)
         \<and> userID ?B 0 = uid"
    by blast
  from T [where c = 0 and s = ?B and s' = ?C and now = 2 and now' = 2, THEN conjunct2, THEN conjunct2, THEN conjunct2, THEN conjunct2, THEN conjunct2, THEN conjunct1] h6
  have c6: "reader_done ?C 0" "0 \<notin> registered ?C" by blast+
  from T [where c = 0 and s = ?C and s' = ?D and es = ?later, THEN conjunct2, THEN conjunct2, THEN conjunct2, THEN conjunct2, THEN conjunct2, THEN conjunct2, THEN conjunct1] h7
  have c7: "0 \<notin> registered ?D" by blast
  let ?m = "\<lparr>Type = ''auth'', Payload = ''alice,pw1''\<rparr>"
  have um: "unmarshal_msg sample_env ''auth:alice,pw1'' = Some ?m"
    by (simp add: sample_env_def)
  have h8: "fst (canAuth 3 3 (clientIP sample_removed 0) (limiter sample_removed))"
    "handleAuth sample_env (decode_auth sample_env (Payload ?m)) (db sample_removed)
       = (Inr (1, ''alice''), db sample_removed)"
    by (simp_all add: sample_removed_def sample_authed_def sample_env_def canAuth_def Let_def
        attempts_of_def after_cutoff_def minute_def)
  have st: "sys_step sample_split sample_env (EvReader 0 3 3 (ReadMessage ''auth:alice,pw1'')) sample_removed
       = Inr sample_orphan"
    using run_orphan by (simp only: ev_reauth_def)
  from registry_invariants [where sp = sample_split and env = sample_env and c = 0
      and s = sample_removed and now = 3 and now' = 3 and b = "''auth:alice,pw1''" and wsMsg = ?m
      and uid = 1 and uname = "''alice''" and ?d1.0 = "db sample_removed", THEN conjunct2, THEN conjunct2, THEN conjunct2, THEN conjunct2, THEN conjunct2, THEN conjunct2, THEN conjunct2, THEN conjunct2, THEN conjunct2, THEN conjunct1]
    sample_removed_fields(1-6) um h8
  obtain s4 where s4: "sys_step sample_split sample_env (EvReader 0 3 3 (ReadMessage ''auth:alice,pw1'')) sample_removed = Inr s4"
    "registered s4 = insert 0 (registered sample_removed)" "userID s4 0 = 1"
    "\<forall>es' s5. sys_run sample_split sample_env es' s4 = Inr s5 \<longrightarrow>
        0 \<in> registered s5 \<and> reader_done s5 0 \<and> closed (send s5 0)"
    by (simp only: WSMessage.simps) blast
  from s4(1) st have eq: "s4 = sample_orphan" by simp
  from s4(2,3) have c8: "registered sample_orphan = {0}" "userID sample_orphan 0 = 1"
    unfolding eq by (simp_all add: sample_removed_fields(7))
  from s4(4) run_two have c9: "0 \<in> registered sample_two \<and> reader_done sample_two 0 \<and> closed (send sample_two 0)"
    unfolding eq by blast
  have h8': "handleAuth sample_env (decode_auth sample_env ''alice,pw1'') (db sample_removed)
       = (Inr (1, ''alice''), db sample_removed)"
    using h8(2) by simp
  from h1 v1 c1 h2 ids_nonzero_sample v2 c2(1) c2' h3 c3 h4 c4 h5 c5 h6(2,4) c6 h7(1,4) c7
    sample_removed_fields(1-6) um h8(1) h8' st c8 run_two c9
  show ?thesis by blast
qed

subsection \<open>Broadcast delivery\<close>

lemma run_crash: "sys_run sample_split sample_env crash_run sample_server = Inl SendOnClosedChannel"
proof -
  have "sys_step sample_split sample_env (EvReader 1 5 5 (ReadMessage ''typing:x'')) sample_two
      = Inl SendOnClosedChannel"
    by (rule typing_crash [OF sample_two_fields(1-5) sample_typing _ sample_two_fields(6,7)]) simp
  then have one: "sys_run sample_split sample_env [EvReader 1 5 5 (ReadMessage ''typing:x'')] sample_two
      = Inl SendOnClosedChannel"
    by (simp only: sys_run.simps sum.case)
  have "sys_run sample_split sample_env
      ((flood @ ev_reauth # newcomer) @ [EvReader 1 5 5 (ReadMessage ''typing:x'')]) sample_server
      = Inl SendOnClosedChannel"
    unfolding sys_run_append [of _ _ "flood @ ev_reauth # newcomer"] run_to_two sum.case
    by (rule one)
  then show ?thesis by (simp add: crash_run_def)
qed

text \<open>
  Claim C2. A broadcast over a registry whose clients' queues are open, in any iteration
  order of the map, completes; every registered client whose queue has room gets the
  message appended to its queue and stays registered, every registered client whose
  queue is full is deleted from the registry, has its queue closed and its queue
  contents unchanged, and no other client is touched. The hub's own pass and a pass in
  any other order end in the same state.

  With a registered client whose queue is closed, the broadcast panics in \<open>Hub.run\<close> in
  every order, and the process ends: a \<open>typing\<close> frame of any authenticated client ends
  the run, whatever follows it. The server reaches such a registry: on the sample
  server the run \<open>flood @ ev_reauth # newcomer\<close> ends with client 0 registered on a
  closed queue and client 1 registered with room in its queue, and the next \<open>typing\<close>
  frame of client 1 ends the process with nothing delivered.
\<close>

theorem broadcast_delivery:
  "(distinct order \<and> set order = registered s \<and> (\<forall>c\<in>registered s. \<not> closed (send s c)) \<longrightarrow>
     (\<exists>s'. broadcast_over order m s = Inr s' \<and>
        (distinct (map fst (hub_clients s)) \<longrightarrow> hub_broadcast m s = Inr s') \<and>
        (\<forall>c\<in>registered s.
           if length (buf (send s c)) < chan_cap
           then buf (send s' c) = buf (send s c) @ [m] \<and> \<not> closed (send s' c) \<and> c \<in> registered s'
           else buf (send s' c) = buf (send s c) \<and> closed (send s' c) \<and> c \<notin> registered s') \<and>
        (\<forall>c. c \<notin> registered s \<longrightarrow> send s' c = send s c \<and> c \<notin> registered s')))
   \<and> (c \<in> registered s \<and> closed (send s c) \<and> set order = registered s \<longrightarrow>
        broadcast_over order m s = Inl SendOnClosedChannel
        \<and> hub_broadcast m s = Inl SendOnClosedChannel)
   \<and> (k < next_client s \<and> \<not> reader_done s k \<and> parked s k = None \<and> conn_closes s k = 0
        \<and> userID s k \<noteq> 0 \<and> unmarshal_msg env b = Some wsMsg \<and> Type wsMsg = ''typing''
        \<and> c \<in> registered s \<and> closed (send s c) \<longrightarrow>
        sys_run sp env (EvReader k now now' (ReadMessage b) # es) s = Inl SendOnClosedChannel)
   \<and> sys_run sample_split sample_env (flood @ ev_reauth # newcomer) sample_server = Inr sample_two
   \<and> registered sample_two = {0, 1} \<and> closed (send sample_two 0)
   \<and> \<not> closed (send sample_two 1) \<and> length (buf (send sample_two 1)) < chan_cap
   \<and> sys_run sample_split sample_env crash_run sample_server = Inl SendOnClosedChannel"
proof -
  have A: "\<exists>s'. broadcast_over order m s = Inr s' \<and>
        (distinct (map fst (hub_clients s)) \<longrightarrow> hub_broadcast m s = Inr s') \<and>
        (\<forall>c\<in>registered s.
           if length (buf (send s c)) < chan_cap
           then buf (send s' c) = buf (send s c) @ [m] \<and> \<not> closed (send s' c) \<and> c \<in> registered s'
           else buf (send s' c) = buf (send s c) \<and> closed (send s' c) \<and> c \<notin> registered s') \<and>
        (\<forall>c. c \<notin> registered s \<longrightarrow> send s' c = send s c \<and> c \<notin> registered s')"
    if a: "distinct order \<and> set order = registered s \<and> (\<forall>c\<in>registered s. \<not> closed (send s c))"
  proof -
    let ?s' = "after_broadcast order m s"
    from a have r: "broadcast_over order m s = Inr ?s'"
      by (intro broadcast_over_result) auto
    have h: "hub_broadcast m s = Inr ?s'" if d: "distinct (map fst (hub_clients s))"
    proof -
      have "set (map fst (hub_clients s)) = set order" using a by (simp add: registered_def)
      then have "after_broadcast (map fst (hub_clients s)) m s = ?s'"
        by (rule after_broadcast_order)
      moreover have "broadcast_over (map fst (hub_clients s)) m s
          = Inr (after_broadcast (map fst (hub_clients s)) m s)"
        using a d by (intro broadcast_over_result) (auto simp: registered_def)
      ultimately show ?thesis by (simp add: hub_broadcast_def)
    qed
    have reg: "\<forall>c\<in>registered s.
           if length (buf (send s c)) < chan_cap
           then buf (send ?s' c) = buf (send s c) @ [m] \<and> \<not> closed (send ?s' c) \<and> c \<in> registered ?s'
           else buf (send ?s' c) = buf (send s c) \<and> closed (send ?s' c) \<and> c \<notin> registered ?s'"
      using a by (auto simp: registered_after_broadcast has_room_def) (auto simp: after_broadcast_def has_room_def)
    have other: "\<forall>c. c \<notin> registered s \<longrightarrow> send ?s' c = send s c \<and> c \<notin> registered ?s'"
      using a by (auto simp: registered_after_broadcast) (auto simp: after_broadcast_def)
    from r h reg other show ?thesis by blast
  qed
  have B: "broadcast_over order m s = Inl SendOnClosedChannel
        \<and> hub_broadcast m s = Inl SendOnClosedChannel"
    if "c \<in> registered s" "closed (send s c)" "set order = registered s"
    using that broadcast_over_closed [of c order s m] hub_broadcast_closed [of c s m] by simp
  have C: "sys_run sp env (EvReader k now now' (ReadMessage b) # es) s = Inl SendOnClosedChannel"
    if "k < next_client s" "\<not> reader_done s k" "parked s k = None" "conn_closes s k = 0"
      "userID s k \<noteq> 0" "unmarshal_msg env b = Some wsMsg" "Type wsMsg = ''typing''"
      "c \<in> registered s" "closed (send s c)"
    using typing_crash [OF that, of sp now now'] by (simp only: sys_run.simps sum.case)
  note D = run_to_two sample_two_fields(11,7,9,10) run_crash
  from A B C D show ?thesis by blast
qed

theorem broadcast_delivery_witness:
  "distinct [0 :: cid] \<and> set [0] = registered sample_authed
   \<and> \<not> closed (send sample_authed 0) \<and> length (buf (send sample_authed 0)) < chan_cap
   \<and> (\<exists>s'. broadcast_over [0] ''hi'' sample_authed = Inr s' \<and> hub_broadcast ''hi'' sample_authed = Inr s'
         \<and> buf (send s' 0) = [''auth_success:alice'', ''hi''] \<and> \<not> closed (send s' 0)
         \<and> 0 \<in> registered s' \<and> send s' 1 = make_chan)
   \<and> set [0] = registered sample_full
   \<and> \<not> closed (send sample_full 0) \<and> \<not> length (buf (send sample_full 0)) < chan_cap
   \<and> (\<exists>s'. broadcast_over [0] ''hi'' sample_full = Inr s' \<and> hub_broadcast ''hi'' sample_full = Inr s'
         \<and> buf (send s' 0) = buf (send sample_full 0) \<and> closed (send s' 0) \<and> 0 \<notin> registered s')
   \<and> 0 \<in> registered sample_two \<and> closed (send sample_two 0)
   \<and> set [1, 0] = registered sample_two
   \<and> broadcast_over [1, 0] ''hi'' sample_two = Inl SendOnClosedChannel
   \<and> hub_broadcast ''hi'' sample_two = Inl SendOnClosedChannel
   \<and> 1 < next_client sample_two \<and> \<not> reader_done sample_two 1 \<and> parked sample_two 1 = None
   \<and> conn_closes sample_two 1 = 0 \<and> userID sample_two 1 \<noteq> 0
   \<and> unmarshal_msg sample_env ''typing:x'' = Some \<lparr>Type = ''typing'', Payload = ''x''\<rparr>
   \<and> sys_run sample_split sample_env
        [EvReader 1 5 5 (ReadMessage ''typing:x''), EvWriter 1 True] sample_two
       = Inl SendOnClosedChannel"
proof -
  let ?m = "\<lparr>Type = ''typing'', Payload = ''x''\<rparr>"
  have ra: "registered sample_authed = {0}" and rf: "registered sample_full = {0}"
    by (simp_all add: registered_def sample_authed_def sample_full_def)
  have va: "\<not> closed (send sample_authed 0)" "length (buf (send sample_authed 0)) < chan_cap"
    "buf (send sample_authed 0) = [''auth_success:alice'']" "send sample_authed 1 = make_chan"
    "distinct (map fst (hub_clients sample_authed))"
    by (simp_all add: sample_authed_def chan_cap_def)
  have vf: "\<not> closed (send sample_full 0)" "\<not> length (buf (send sample_full 0)) < chan_cap"
    "distinct (map fst (hub_clients sample_full))"
    by (simp_all add: sample_full_def sample_authed_def chan_cap_def)
  have ha: "distinct [0 :: cid] \<and> set [0] = registered sample_authed
      \<and> (\<forall>c\<in>registered sample_authed. \<not> closed (send sample_authed c))"
    unfolding ra using va(1) by simp
  have hf: "distinct [0 :: cid] \<and> set [0] = registered sample_full
      \<and> (\<forall>c\<in>registered sample_full. \<not> closed (send sample_full c))"
    unfolding rf using vf(1) by simp
  from ha broadcast_delivery [where order = "[0]" and s = sample_authed and m = "''hi''", THEN conjunct1]
  obtain s' where s': "broadcast_over [0] ''hi'' sample_authed = Inr s'"
    "distinct (map fst (hub_clients sample_authed)) \<longrightarrow> hub_broadcast ''hi'' sample_authed = Inr s'"
    "\<forall>c\<in>registered sample_authed.
           if length (buf (send sample_authed c)) < chan_cap
           then buf (send s' c) = buf (send sample_authed c) @ [''hi''] \<and> \<not> closed (send s' c) \<and> c \<in> registered s'
           else buf (send s' c) = buf (send sample_authed c) \<and> closed (send s' c) \<and> c \<notin> registered s'"
    "\<forall>c. c \<notin> registered sample_authed \<longrightarrow> send s' c = send sample_authed c \<and> c \<notin> registered s'"
    by blast
  from s'(3) va(2,3) have a0: "buf (send s' 0) = [''auth_success:alice'', ''hi''] \<and> \<not> closed (send s' 0)
      \<and> 0 \<in> registered s'"
    unfolding ra by simp
  from s'(4) va(4) have a1: "send s' 1 = make_chan" unfolding ra by simp
  from s'(2) va(5) have a2: "hub_broadcast ''hi'' sample_authed = Inr s'" by blast
  from s'(1) a2 a0 a1 have cA: "\<exists>s'. broadcast_over [0] ''hi'' sample_authed = Inr s'
         \<and> hub_broadcast ''hi'' sample_authed = Inr s'
         \<and> buf (send s' 0) = [''auth_success:alice'', ''hi''] \<and> \<not> closed (send s' 0)
         \<and> 0 \<in> registered s' \<and> send s' 1 = make_chan"
    by blast
  from hf broadcast_delivery [where order = "[0]" and s = sample_full and m = "''hi''", THEN conjunct1]
  obtain t' where t': "broadcast_over [0] ''hi'' sample_full = Inr t'"
    "distinct (map fst (hub_clients sample_full)) \<longrightarrow> hub_broadcast ''hi'' sample_full = Inr t'"
    "\<forall>c\<in>registered sample_full.
           if length (buf (send sample_full c)) < chan_cap
           then buf (send t' c) = buf (send sample_full c) @ [''hi''] \<and> \<not> closed (send t' c) \<and> c \<in> registered t'
           else buf (send t' c) = buf (send sample_full c) \<and> closed (send t' c) \<and> c \<notin> registered t'"
    by blast
  from t'(3) vf(2) have f0: "buf (send t' 0) = buf (send sample_full 0) \<and> closed (send t' 0)
      \<and> 0 \<notin> registered t'"
    unfolding rf by simp
  from t'(2) vf(3) have f2: "hub_broadcast ''hi'' sample_full = Inr t'" by blast
  from t'(1) f2 f0 have cF: "\<exists>s'. broadcast_over [0] ''hi'' sample_full = Inr s'
         \<and> hub_broadcast ''hi'' sample_full = Inr s'
         \<and> buf (send s' 0) = buf (send sample_full 0) \<and> closed (send s' 0) \<and> 0 \<notin> registered s'"
    by blast
  have so: "set [1, 0 :: cid] = registered sample_two"
    unfolding sample_two_fields(11) by auto
  from broadcast_delivery [where c = 0 and order = "[1, 0]" and s = sample_two and m = "''hi''",
      THEN conjunct2, THEN conjunct1] sample_two_fields(6,7) so
  have cB: "broadcast_over [1, 0] ''hi'' sample_two = Inl SendOnClosedChannel"
    "hub_broadcast ''hi'' sample_two = Inl SendOnClosedChannel"
    by blast+
  have ty: "Type ?m = ''typing''" by simp
  from broadcast_delivery [where k = 1 and c = 0 and s = sample_two and env = sample_env
      and b = "''typing:x''" and wsMsg = ?m and sp = sample_split and now = 5 and now' = 5
      and es = "[EvWriter 1 True]", THEN conjunct2, THEN conjunct2, THEN conjunct1]
    sample_two_fields(1-7) sample_typing ty
  have cC: "sys_run sample_split sample_env
        [EvReader 1 5 5 (ReadMessage ''typing:x''), EvWriter 1 True] sample_two
       = Inl SendOnClosedChannel"
    by blast
  have d0: "distinct [0 :: cid]" by simp
  have sa: "set [0 :: cid] = registered sample_authed" "set [0 :: cid] = registered sample_full"
    unfolding ra rf by simp_all
  from d0 sa(1) va(1,2) cA sa(2) vf(1,2) cF sample_two_fields(6,7) so cB sample_two_fields(1-5)
    sample_typing cC
  show ?thesis by blast
qed

section \<open>The end of a connection\<close>

lemma sys_step_abandoned:
  assumes "sys_step sp env e s = Inr s'" "abandoned c s"
  shows "abandoned c s'"
proof (cases e)
  case (EvAccept r up)
  from assms(2) have "c \<noteq> next_client s" by (simp add: abandoned_def)
  from accept_fields(3) [OF this, of sp r up] accept_fields(2) [of s sp r up]
    registered_accept [of sp r up s] assms EvAccept
  show ?thesis by (auto simp: abandoned_def)
next
  case (EvWriter k w)
  show ?thesis
  proof (cases "k = c")
    case True
    from assms(2) have "writer_step c w s = s"
      by (intro writer_step_waits) (simp_all add: abandoned_def make_chan_def)
    with assms EvWriter True show ?thesis by (auto split: if_splits)
  next
    case False
    then have "c \<noteq> k" by simp
    from writer_step_fields(5) [OF this, of w s] assms EvWriter show ?thesis
      by (auto simp: abandoned_def registered_writer_step writer_step_fields(1-4) split: if_splits)
  qed
next
  case (EvReader k now now' input)
  show ?thesis
  proof (cases "k < next_client s")
    case False
    with assms EvReader show ?thesis by simp
  next
    case alloc: True
    show ?thesis
    proof (cases "k = c")
      case True
      with assms EvReader show ?thesis
        by (auto simp: abandoned_def reader_step_done split: if_splits)
    next
      case False
      from assms(1) EvReader have "sys_step sp env (EvReader k now now' input) s = Inr s'" by simp
      from sys_step_reader [OF this alloc] obtain s1 where s1: "lands (reader_step env now now' k input s) s1"
        "s' = s1 \<or> s' = s1\<lparr>reader_done := (reader_done s1)(k := True)\<rparr>"
        by blast
      from reader_step_frame [OF s1(1)] assms(2) False have "abandoned c s1"
        by (auto simp: abandoned_def step_frame_def)
      with s1(2) False show ?thesis by (auto simp: abandoned_def)
    qed
  qed
qed

lemma sys_run_abandoned:
  "sys_run sp env es s = Inr s' \<Longrightarrow> abandoned c s \<Longrightarrow> abandoned c s'"
proof (induction es arbitrary: s)
  case Nil
  then show ?case by simp
next
  case (Cons e es)
  from Cons.prems(1) obtain s1 where s1: "sys_step sp env e s = Inr s1" "sys_run sp env es s1 = Inr s'"
    by (auto split: sum.splits)
  from sys_step_abandoned [OF s1(1) Cons.prems(2)] Cons.IH [OF s1(2)] show ?case by blast
qed

lemma accept_then_read_error:
  assumes acc: "fst (handleWebSocket_accept sp r up s0) = Accepted c" and nr: "c \<notin> registered s0"
    and rd: "reader_step env now now' c ReadError (snd (handleWebSocket_accept sp r up s0)) = Inr s1"
  shows "abandoned c s1"
proof -
  let ?s = "snd (handleWebSocket_accept sp r up s0)"
  from acc have c: "c = next_client s0" and s: "userID ?s c = 0" "\<not> reader_done ?s c"
    "parked ?s c = None" "\<not> writer_done ?s c" "send ?s c = make_chan" "conn_closes ?s c = 0"
    "next_client ?s = Suc c"
    by (auto simp: handleWebSocket_accept_def Let_def split: if_splits)
  from reader_exit [OF s(2,3) rd] s(1) have "s1 = ?s\<lparr>reader_done := (reader_done ?s)(c := True)\<rparr>"
    by simp
  with s nr show ?thesis by (simp add: abandoned_def registered_accept)
qed

lemma authenticated_read_error_closes:
  assumes "\<not> reader_done s c" "parked s c = None" "userID s c \<noteq> 0" "c \<in> registered s"
    and w: "\<not> writer_done s c" "buf (send s c) = []" "conn_closes s c = 0"
    and rd: "reader_step env now now' c ReadError s = Inr s'"
  shows "reader_done s' c \<and> c \<notin> registered s' \<and> writer_done (writer_step c w s') c
     \<and> conn_closes (writer_step c w s') c = 1"
proof -
  have r: "lands (if userID s c \<noteq> 0
      then (case hub_unregister c s of
              Inl p \<Rightarrow> Inl (HubPanic p)
            | Inr s1 \<Rightarrow> Inr (s1\<lparr>reader_done := (reader_done s1)(c := True)\<rparr>))
      else Inr (s\<lparr>reader_done := (reader_done s)(c := True)\<rparr>)) s'"
    using rd unfolding reader_step_error [OF assms(1,2) if_cancel] by simp
  with assms(3) obtain s1 where s1: "hub_unregister c s = Inr s1"
    "s' = s1\<lparr>reader_done := (reader_done s1)(c := True)\<rparr>"
    by (auto split: sum.splits)
  from s1(1) assms(4) have s1': "s1 = s\<lparr>hub_clients := AList.delete c (hub_clients s),
            send := (send s)(c := (send s c)\<lparr>closed := True\<rparr>)\<rparr>"
    by (auto elim: hub_unregister_cases)
  show ?thesis
    unfolding s1(2) s1' using w
    by (simp add: writer_step_def writer_exit_def registered_delete [simplified] registered_def
        delete_notin_dom)
qed

text \<open>
  Claim C7. A connection is admitted and its read fails before it has authenticated.
  The reader returns without unregistering, since the user id is 0; nothing closes the
  queue, so in every continuation of the run the writer goroutine has not returned and
  \<open>conn.Close()\<close> has not been called. On an authenticated, registered connection the
  same read failure unregisters the client, which closes the queue, and the writer's
  next turn on the empty queue returns and closes the transport once.
\<close>

theorem reader_exit_before_auth:
  "(fst (handleWebSocket_accept sp r up s0) = Accepted c \<and> c \<notin> registered s0
      \<and> reader_step env now now' c ReadError (snd (handleWebSocket_accept sp r up s0)) = Inr s1
      \<and> sys_run sp env es s1 = Inr s2 \<longrightarrow>
      reader_done s2 c \<and> \<not> writer_done s2 c \<and> conn_closes s2 c = 0 \<and> send s2 c = make_chan)
   \<and> (\<not> reader_done s c \<and> parked s c = None \<and> userID s c \<noteq> 0 \<and> c \<in> registered s
      \<and> \<not> writer_done s c \<and> buf (send s c) = [] \<and> conn_closes s c = 0
      \<and> reader_step env now now' c ReadError s = Inr s' \<longrightarrow>
      reader_done s' c \<and> c \<notin> registered s' \<and> writer_done (writer_step c w s') c
      \<and> conn_closes (writer_step c w s') c = 1)"
proof -
  have a: "reader_done s2 c \<and> \<not> writer_done s2 c \<and> conn_closes s2 c = 0 \<and> send s2 c = make_chan"
    if "fst (handleWebSocket_accept sp r up s0) = Accepted c" "c \<notin> registered s0"
      "reader_step env now now' c ReadError (snd (handleWebSocket_accept sp r up s0)) = Inr s1"
      "sys_run sp env es s1 = Inr s2"
    using sys_run_abandoned [OF that(4) accept_then_read_error [OF that(1-3)]]
    by (simp add: abandoned_def)
  have b: "reader_done s' c \<and> c \<notin> registered s' \<and> writer_done (writer_step c w s') c
      \<and> conn_closes (writer_step c w s') c = 1"
    if "\<not> reader_done s c" "parked s c = None" "userID s c \<noteq> 0" "c \<in> registered s"
      "\<not> writer_done s c" "buf (send s c) = []" "conn_closes s c = 0"
      "reader_step env now now' c ReadError s = Inr s'"
    using authenticated_read_error_closes [OF that] .
  from a b show ?thesis by blast
qed

theorem reader_exit_before_auth_witness:
  "fst (handleWebSocket_accept sample_split (sample_request ''10.1.1.1, 10.2.2.2'') True sample_server)
     = Accepted 0
   \<and> 0 \<notin> registered sample_server
   \<and> reader_step sample_env 2 2 0 ReadError
        (snd (handleWebSocket_accept sample_split (sample_request ''10.1.1.1, 10.2.2.2'') True
           sample_server))
       = Inr (sample_run [ev_accept, ev_drop])
   \<and> sys_run sample_split sample_env
        [EvWriter 0 True, EvAccept (sample_request []) True,
         EvReader 1 3 3 (ReadMessage ''auth:bob,pw2''), EvReader 1 4 4 (ReadMessage ''typing:x''),
         EvWriter 0 False]
        (sample_run [ev_accept, ev_drop])
       = Inr (sample_run [ev_accept, ev_drop, EvWriter 0 True, EvAccept (sample_request []) True,
           EvReader 1 3 3 (ReadMessage ''auth:bob,pw2''), EvReader 1 4 4 (ReadMessage ''typing:x''),
           EvWriter 0 False])
   \<and> reader_done (sample_run [ev_accept, ev_drop, EvWriter 0 True, EvAccept (sample_request []) True,
           EvReader 1 3 3 (ReadMessage ''auth:bob,pw2''), EvReader 1 4 4 (ReadMessage ''typing:x''),
           EvWriter 0 False]) 0
   \<and> \<not> writer_done (sample_run [ev_accept, ev_drop, EvWriter 0 True, EvAccept (sample_request []) True,
           EvReader 1 3 3 (ReadMessage ''auth:bob,pw2''), EvReader 1 4 4 (ReadMessage ''typing:x''),
           EvWriter 0 False]) 0
   \<and> conn_closes (sample_run [ev_accept, ev_drop, EvWriter 0 True, EvAccept (sample_request []) True,
           EvReader 1 3 3 (ReadMessage ''auth:bob,pw2''), EvReader 1 4 4 (ReadMessage ''typing:x''),
           EvWriter 0 False]) 0 = 0
   \<and> conn_count (limiter (sample_run [ev_accept, ev_drop, EvWriter 0 True,
           EvAccept (sample_request []) True, EvReader 1 3 3 (ReadMessage ''auth:bob,pw2''),
           EvReader 1 4 4 (ReadMessage ''typing:x''), EvWriter 0 False])) ''10.1.1.1, 10.2.2.2'' = 1
   \<and> \<not> reader_done (sample_run [ev_accept, ev_auth, EvWriter 0 True]) 0
   \<and> parked (sample_run [ev_accept, ev_auth, EvWriter 0 True]) 0 = None
   \<and> userID (sample_run [ev_accept, ev_auth, EvWriter 0 True]) 0 \<noteq> 0
   \<and> 0 \<in> registered (sample_run [ev_accept, ev_auth, EvWriter 0 True])
   \<and> \<not> writer_done (sample_run [ev_accept, ev_auth, EvWriter 0 True]) 0
   \<and> buf (send (sample_run [ev_accept, ev_auth, EvWriter 0 True]) 0) = []
   \<and> conn_closes (sample_run [ev_accept, ev_auth, EvWriter 0 True]) 0 = 0
   \<and> reader_step sample_env 2 2 0 ReadError (sample_run [ev_accept, ev_auth, EvWriter 0 True])
       = Inr (sample_run [ev_accept, ev_auth, EvWriter 0 True, ev_drop])
   \<and> reader_done (sample_run [ev_accept, ev_auth, EvWriter 0 True, ev_drop]) 0
   \<and> 0 \<notin> registered (sample_run [ev_accept, ev_auth, EvWriter 0 True, ev_drop])
   \<and> writer_done (writer_step 0 True (sample_run [ev_accept, ev_auth, EvWriter 0 True, ev_drop])) 0
   \<and> conn_closes (writer_step 0 True (sample_run [ev_accept, ev_auth, EvWriter 0 True, ev_drop])) 0 = 1"
proof -
  let ?r = "sample_request ''10.1.1.1, 10.2.2.2''"
  let ?es = "[EvWriter 0 True, EvAccept (sample_request []) True,
         EvReader 1 3 3 (ReadMessage ''auth:bob,pw2''), EvReader 1 4 4 (ReadMessage ''typing:x''),
         EvWriter 0 False]"
  let ?S1 = "sample_run [ev_accept, ev_drop]"
  let ?S2 = "sample_run [ev_accept, ev_drop, EvWriter 0 True, EvAccept (sample_request []) True,
           EvReader 1 3 3 (ReadMessage ''auth:bob,pw2''), EvReader 1 4 4 (ReadMessage ''typing:x''),
           EvWriter 0 False]"
  let ?B = "sample_run [ev_accept, ev_auth, EvWriter 0 True]"
  let ?C = "sample_run [ev_accept, ev_auth, EvWriter 0 True, ev_drop]"
  have h1: "fst (handleWebSocket_accept sample_split ?r True sample_server) = Accepted 0"
    "0 \<notin> registered sample_server"
    "reader_step sample_env 2 2 0 ReadError (snd (handleWebSocket_accept sample_split ?r True sample_server))
       = Inr ?S1"
    by (simp_all add: sample_events sample_eval)
  have h2: "sys_run sample_split sample_env ?es ?S1 = Inr ?S2"
    by (simp add: sample_events sample_eval on_typing_def)
  have v: "conn_count (limiter ?S2) ''10.1.1.1, 10.2.2.2'' = 1"
    by (simp add: sample_events sample_eval on_typing_def)
  have h3: "\<not> reader_done ?B 0" "parked ?B 0 = None" "userID ?B 0 \<noteq> 0" "0 \<in> registered ?B"
    "\<not> writer_done ?B 0" "buf (send ?B 0) = []" "conn_closes ?B 0 = 0"
    "reader_step sample_env 2 2 0 ReadError ?B = Inr ?C"
    by (simp_all add: sample_events sample_eval)
  note T = reader_exit_before_auth [where sp = sample_split and env = sample_env and c = 0
      and now = 2 and now' = 2 and r = ?r and up = True and ?s0.0 = sample_server
      and ?s1.0 = ?S1 and ?s2.0 = ?S2 and es = ?es and s = ?B and s' = ?C and w = True]
  from T h1 h2 have c1: "reader_done ?S2 0" "\<not> writer_done ?S2 0" "conn_closes ?S2 0 = 0"
    by blast+
  from T h3 have c2: "reader_done ?C 0" "0 \<notin> registered ?C" "writer_done (writer_step 0 True ?C) 0"
    "conn_closes (writer_step 0 True ?C) 0 = 1"
    by blast+
  from h1 h2 c1 v h3 c2 show ?thesis by blast
qed

section \<open>The client's reconnect cycle (cmd/client/main.go)\<close>

lemma drive_mono:
  "drive fuel con m c n ds = Some r \<Longrightarrow> drive (fuel + k) con m c n ds = Some r"
proof (induction fuel arbitrary: m c n ds)
  case 0
  then show ?case by simp
next
  case (Suc fuel)
  show ?case
  proof (cases c)
    case (ConnectToServer url)
    with Suc.prems show ?thesis
      by (cases "Update m (if con n then WsConnected n else WsError ''dial failed'')")
        (simp add: Suc.IH)
  next
    case (Tick d x)
    with Suc.prems show ?thesis
      by (cases "Update m x") (simp add: Suc.IH)
  qed (use Suc.prems in simp_all)
qed

lemma drive_enough:
  assumes "drive fuel con m c n ds = Some r" "fuel \<le> fuel'"
  shows "drive fuel' con m c n ds = Some r"
proof -
  from assms(2) obtain k where "fuel' = fuel + k" using le_Suc_ex by blast
  with drive_mono [OF assms(1), of k] show ?thesis by simp
qed

lemma fail_step:
  assumes "reconnectCount m < 5"
  shows "Update m (WsError e) =
     (m\<lparr>connected := False, conn := None, reconnectCount := reconnectCount m + 1,
        isReconnecting := True\<rparr>,
      Tick (Second * (reconnectCount m + 1)) WsReconnect)"
  using assms by (simp add: Let_def)

lemma fail_last:
  assumes "\<not> reconnectCount m < 5"
  shows "Update m (WsError e) =
     (m\<lparr>connected := False, conn := None, isReconnecting := False, err := Some e\<rparr>, NoCmd)"
  using assms by (simp add: Let_def)

lemma connected_step:
  "\<exists>m' c'. Update m (WsConnected k) = (m', c') \<and> connected m' \<and> conn m' = Some k
     \<and> reconnectCount m' = 0 \<and> \<not> isReconnecting m' \<and> err m' = err m
     \<and> (\<forall>fuel. drive (Suc fuel) con m' c' n ds = Some (m', c', n, ds))"
  by (cases "savedSession m") (auto simp: Let_def)

lemma failed_fields [simp]:
  "reconnectCount (failed m) = reconnectCount m + 1"
  "serverURL (failed m) = serverURL m"
  "err (failed m) = err m"
  by (simp_all add: failed_def)

lemma tick_leg:
  "drive (Suc fuel) con (failed m) (Tick d WsReconnect) n ds
     = drive fuel con (failed m) (ConnectToServer (serverURL m)) n (ds @ [d])"
  by (simp add: failed_def)

lemma dial_fails:
  assumes "\<not> con n" "reconnectCount m < 5"
  shows "drive (Suc (Suc fuel)) con m (ConnectToServer url) n ds
     = drive fuel con (failed m) (ConnectToServer (serverURL m)) (Suc n)
         (ds @ [Second * (reconnectCount m + 1)])"
proof -
  have "drive (Suc (Suc fuel)) con m (ConnectToServer url) n ds
      = drive (Suc fuel) con (failed m) (Tick (Second * (reconnectCount m + 1)) WsReconnect) (Suc n) ds"
    using assms by (simp add: fail_step failed_def del: Update.simps)
  then show ?thesis by (simp only: tick_leg)
qed

lemma dial_fails_last:
  assumes "\<not> con n" "\<not> reconnectCount m < 5"
  shows "drive (Suc (Suc fuel)) con m (ConnectToServer url) n ds
     = Some (m\<lparr>connected := False, conn := None, isReconnecting := False,
               err := Some ''dial failed''\<rparr>, NoCmd, Suc n, ds)"
  using assms by (simp add: fail_last del: Update.simps)

lemma dial_succeeds:
  assumes "con n"
  shows "\<exists>m' c'. drive (Suc (Suc fuel)) con m (ConnectToServer url) n ds = Some (m', c', Suc n, ds)
     \<and> connected m' \<and> conn m' = Some n \<and> reconnectCount m' = 0 \<and> \<not> isReconnecting m'
     \<and> err m' = err m"
proof -
  from connected_step [of m n con "Suc n" ds] obtain m' c' where
    u: "Update m (WsConnected n) = (m', c')" and
    p: "connected m'" "conn m' = Some n" "reconnectCount m' = 0" "\<not> isReconnecting m'" "err m' = err m"
    and d: "\<forall>fuel. drive (Suc fuel) con m' c' (Suc n) ds = Some (m', c', Suc n, ds)"
    by blast
  have "drive (Suc (Suc fuel)) con m (ConnectToServer url) n ds = drive (Suc fuel) con m' c' (Suc n) ds"
    using assms u by (simp del: Update.simps)
  with d p show ?thesis by simp
qed

lemma login_recovers:
  assumes "reconnectCount m = 0"
  shows "\<exists>m' c'. from_login 10 (\<lambda>n. 4 \<le> n) m
        = Some (m', c', 5, [1 * Second, 2 * Second, 3 * Second, 4 * Second])
     \<and> connected m' \<and> conn m' = Some 4 \<and> reconnectCount m' = 0 \<and> \<not> isReconnecting m'
     \<and> err m' = err m"
proof -
  let ?con = "\<lambda>n::nat. 4 \<le> n"
  let ?m4 = "failed (failed (failed (failed m)))"
  have ten: "(10::nat) = Suc (Suc (Suc (Suc (Suc (Suc (Suc (Suc (Suc (Suc 0)))))))))" by simp
  have four: "(4::nat) = Suc (Suc (Suc (Suc 0)))" "(5::nat) = Suc (Suc (Suc (Suc (Suc 0))))" by simp_all
  have legs: "from_login 10 ?con m
      = drive (Suc (Suc 0)) ?con ?m4 (ConnectToServer (serverURL m)) (Suc (Suc (Suc (Suc 0))))
          [1 * Second, 2 * Second, 3 * Second, 4 * Second]"
    unfolding from_login_def ten using assms
    by (simp add: dial_fails del: drive.simps) (simp add: Second_def)
  have c4: "?con (Suc (Suc (Suc (Suc 0))))" by simp
  from dial_succeeds [where con = ?con, OF c4, of 0 ?m4 "serverURL m"
      "[1 * Second, 2 * Second, 3 * Second, 4 * Second]"]
  obtain m' c' where
    r: "drive (Suc (Suc 0)) ?con ?m4 (ConnectToServer (serverURL m)) (Suc (Suc (Suc (Suc 0))))
          [1 * Second, 2 * Second, 3 * Second, 4 * Second]
        = Some (m', c', Suc (Suc (Suc (Suc (Suc 0)))), [1 * Second, 2 * Second, 3 * Second, 4 * Second])"
    and p: "connected m'" "conn m' = Some (Suc (Suc (Suc (Suc 0))))" "reconnectCount m' = 0"
      "\<not> isReconnecting m'" "err m' = err ?m4"
    by blast
  have "from_login 10 ?con m = Some (m', c', 5, [1 * Second, 2 * Second, 3 * Second, 4 * Second])"
    unfolding legs r four(2) ..
  moreover have "conn m' = Some 4" "err m' = err m" using p(2,5) by simp_all
  ultimately show ?thesis using p(1,3,4) by blast
qed

lemma login_gives_up:
  assumes "reconnectCount m = 0"
  shows "from_login 12 (\<lambda>n. False) m
        = Some ((failed (failed (failed (failed (failed m)))))
                  \<lparr>connected := False, conn := None, isReconnecting := False,
                    err := Some ''dial failed''\<rparr>,
                NoCmd, 6, [1 * Second, 2 * Second, 3 * Second, 4 * Second, 5 * Second])"
proof -
  have twelve: "(12::nat) = Suc (Suc (Suc (Suc (Suc (Suc (Suc (Suc (Suc (Suc (Suc (Suc 0)))))))))))"
    by simp
  show ?thesis
    unfolding from_login_def twelve using assms
    by (simp add: dial_fails dial_fails_last Second_def del: drive.simps)
qed

lemma drop_recovers:
  assumes "reconnectCount m = 0"
  shows "\<exists>m' c'. from_drop 11 (\<lambda>n. 4 \<le> n) m
        = Some (m', c', 5, [1 * Second, 2 * Second, 3 * Second, 4 * Second, 5 * Second])
     \<and> connected m' \<and> conn m' = Some 4 \<and> reconnectCount m' = 0 \<and> \<not> isReconnecting m'
     \<and> err m' = err m"
proof -
  let ?con = "\<lambda>n::nat. 4 \<le> n"
  let ?m5 = "failed (failed (failed (failed (failed m))))"
  have ten: "(11::nat) = Suc (Suc (Suc (Suc (Suc (Suc (Suc (Suc (Suc (Suc (Suc 0))))))))))" by simp
  have four: "(4::nat) = Suc (Suc (Suc (Suc 0)))" "(5::nat) = Suc (Suc (Suc (Suc (Suc 0))))" by simp_all
  have start: "Update m (WsError ''read failed'') = (failed m, Tick (Second * 1) WsReconnect)"
    using assms by (simp add: fail_step failed_def)
  have legs: "from_drop 11 ?con m
      = drive (Suc (Suc 0)) ?con ?m5 (ConnectToServer (serverURL m)) (Suc (Suc (Suc (Suc 0))))
          [1 * Second, 2 * Second, 3 * Second, 4 * Second, 5 * Second]"
    unfolding from_drop_def start ten using assms
    by (simp add: dial_fails tick_leg del: drive.simps Update.simps) (simp add: Second_def)
  have c4: "?con (Suc (Suc (Suc (Suc 0))))" by simp
  from dial_succeeds [where con = ?con, OF c4, of 0 ?m5 "serverURL m"
      "[1 * Second, 2 * Second, 3 * Second, 4 * Second, 5 * Second]"]
  obtain m' c' where
    r: "drive (Suc (Suc 0)) ?con ?m5 (ConnectToServer (serverURL m)) (Suc (Suc (Suc (Suc 0))))
          [1 * Second, 2 * Second, 3 * Second, 4 * Second, 5 * Second]
        = Some (m', c', Suc (Suc (Suc (Suc (Suc 0)))),
                [1 * Second, 2 * Second, 3 * Second, 4 * Second, 5 * Second])"
    and p: "connected m'" "conn m' = Some (Suc (Suc (Suc (Suc 0))))" "reconnectCount m' = 0"
      "\<not> isReconnecting m'" "err m' = err ?m5"
    by blast
  have "from_drop 11 ?con m
      = Some (m', c', 5, [1 * Second, 2 * Second, 3 * Second, 4 * Second, 5 * Second])"
    unfolding legs r four(2) ..
  moreover have "conn m' = Some 4" "err m' = err m" using p(2,5) by simp_all
  ultimately show ?thesis using p(1,3,4) by blast
qed

lemma drop_gives_up:
  assumes "reconnectCount m = 0"
  shows "from_drop 11 (\<lambda>n. False) m
        = Some ((failed (failed (failed (failed (failed m)))))
                  \<lparr>connected := False, conn := None, isReconnecting := False,
                    err := Some ''dial failed''\<rparr>,
                NoCmd, 5, [1 * Second, 2 * Second, 3 * Second, 4 * Second, 5 * Second])"
proof -
  have eleven: "(11::nat) = Suc (Suc (Suc (Suc (Suc (Suc (Suc (Suc (Suc (Suc (Suc 0))))))))))"
    by simp
  have start: "Update m (WsError ''read failed'') = (failed m, Tick (Second * 1) WsReconnect)"
    using assms by (simp add: fail_step failed_def)
  show ?thesis
    unfolding from_drop_def start eleven using assms
    by (simp add: dial_fails dial_fails_last tick_leg Second_def del: drive.simps Update.simps)
qed

lemma from_login_enough:
  "from_login fuel con m = Some r \<Longrightarrow> fuel \<le> fuel' \<Longrightarrow> from_login fuel' con m = Some r"
  unfolding from_login_def by (rule drive_enough)

lemma from_drop_enough:
  "from_drop fuel con m = Some r \<Longrightarrow> fuel \<le> fuel' \<Longrightarrow> from_drop fuel' con m = Some r"
  unfolding from_drop_def by (cases "Update m (WsError ''read failed'')") (auto intro: drive_enough)

lemma from_login_unique:
  assumes "from_login fuel con m = Some r" "from_login fuel' con m = Some r'"
  shows "r = r'"
proof -
  from from_login_enough [OF assms(1), of "max fuel fuel'"]
    from_login_enough [OF assms(2), of "max fuel fuel'"]
  show ?thesis by simp
qed

lemma from_drop_unique:
  assumes "from_drop fuel con m = Some r" "from_drop fuel' con m = Some r'"
  shows "r = r'"
proof -
  from from_drop_enough [OF assms(1), of "max fuel fuel'"]
    from_drop_enough [OF assms(2), of "max fuel fuel'"]
  show ?thesis by simp
qed

text \<open>
  Claim C4, as stated, fails whichever way the cycle starts. Started by the login
  form's dial, a connector that always fails is dialled 6 times, never exactly 5.
  Started by the loss of an open connection, a connector that fails 4 times and then
  succeeds is reached after waits of 1, 2, 3, 4 and 5 seconds, never after 1, 2, 3, 4.
\<close>

theorem reconnect_claim_counterexample:
  "\<not> ((\<exists>fuel m' c'. from_login fuel (\<lambda>n. 4 \<le> n) sample_model
            = Some (m', c', 5, [1 * Second, 2 * Second, 3 * Second, 4 * Second])
          \<and> connected m' \<and> reconnectCount m' = 0)
       \<and> (\<exists>fuel m' c' ds. from_login fuel (\<lambda>n. False) sample_model = Some (m', c', 5, ds)))
   \<and> \<not> ((\<exists>fuel m' c' n. from_drop fuel (\<lambda>n. 4 \<le> n) sample_connected
            = Some (m', c', n, [1 * Second, 2 * Second, 3 * Second, 4 * Second])
          \<and> connected m' \<and> reconnectCount m' = 0)
       \<and> (\<exists>fuel m' c' ds. from_drop fuel (\<lambda>n. False) sample_connected = Some (m', c', 5, ds)))"
proof -
  have z: "reconnectCount sample_model = 0" "reconnectCount sample_connected = 0"
    by (simp_all add: sample_model_def sample_connected_def)
  have a: "\<not> (\<exists>fuel m' c' ds. from_login fuel (\<lambda>n. False) sample_model = Some (m', c', 5, ds))"
  proof
    assume "\<exists>fuel m' c' ds. from_login fuel (\<lambda>n. False) sample_model = Some (m', c', 5, ds)"
    then obtain fuel m' c' ds where
      "from_login fuel (\<lambda>n. False) sample_model = Some (m', c', 5, ds)" by blast
    from from_login_unique [OF this login_gives_up [OF z(1)]] show False by simp
  qed
  have b: "\<not> (\<exists>fuel m' c' n. from_drop fuel (\<lambda>n. 4 \<le> n) sample_connected
            = Some (m', c', n, [1 * Second, 2 * Second, 3 * Second, 4 * Second])
          \<and> connected m' \<and> reconnectCount m' = 0)"
  proof
    assume "\<exists>fuel m' c' n. from_drop fuel (\<lambda>n. 4 \<le> n) sample_connected
            = Some (m', c', n, [1 * Second, 2 * Second, 3 * Second, 4 * Second])
          \<and> connected m' \<and> reconnectCount m' = 0"
    then obtain fuel m' c' n where
      r: "from_drop fuel (\<lambda>n. 4 \<le> n) sample_connected
            = Some (m', c', n, [1 * Second, 2 * Second, 3 * Second, 4 * Second])" by blast
    from drop_recovers [OF z(2)] obtain m2 c2 where
      "from_drop 11 (\<lambda>n. 4 \<le> n) sample_connected
        = Some (m2, c2, 5, [1 * Second, 2 * Second, 3 * Second, 4 * Second, 5 * Second])"
      by blast
    from from_drop_unique [OF r this] show False by simp
  qed
  from a b show ?thesis by blast
qed

text \<open>
  Claim C4, amended. A failure met with the attempt counter below 5 increments the
  counter and schedules a reconnect after that many seconds; a failure met with the
  counter at 5 or more stores the error and schedules nothing. From a counter of 0
  and given enough steps: started by the login form's dial, a connector that fails 4
  times and then succeeds leaves the client connected on the fifth dial with the
  counter back at 0 after waits of 1, 2, 3 and 4 seconds, and a connector that always
  fails leaves it in the error state with no further command after exactly 6 dials and
  waits of 1 to 5 seconds; started by the loss of an open connection, the same two
  connectors lead to a connection on the fifth dial after waits of 1 to 5 seconds, and
  to the error state after exactly 5 dials.
\<close>

theorem reconnect_cycle:
  "(reconnectCount m < 5 \<longrightarrow>
      Update m (WsError e) =
        (m\<lparr>connected := False, conn := None, reconnectCount := reconnectCount m + 1,
           isReconnecting := True\<rparr>,
         Tick (Second * (reconnectCount m + 1)) WsReconnect))
   \<and> (\<not> reconnectCount m < 5 \<longrightarrow>
      Update m (WsError e) =
        (m\<lparr>connected := False, conn := None, isReconnecting := False, err := Some e\<rparr>, NoCmd))
   \<and> (reconnectCount m = 0 \<and> 10 \<le> fuel \<longrightarrow>
      (\<exists>m' c'. from_login fuel (\<lambda>n. 4 \<le> n) m
          = Some (m', c', 5, [1 * Second, 2 * Second, 3 * Second, 4 * Second])
        \<and> connected m' \<and> conn m' = Some 4 \<and> reconnectCount m' = 0 \<and> \<not> isReconnecting m'
        \<and> err m' = err m))
   \<and> (reconnectCount m = 0 \<and> 12 \<le> fuel \<longrightarrow>
      (\<exists>m'. from_login fuel (\<lambda>n. False) m
          = Some (m', NoCmd, 6, [1 * Second, 2 * Second, 3 * Second, 4 * Second, 5 * Second])
        \<and> \<not> connected m' \<and> conn m' = None \<and> \<not> isReconnecting m'
        \<and> err m' = Some ''dial failed'' \<and> reconnectCount m' = 5))
   \<and> (reconnectCount m = 0 \<and> 11 \<le> fuel \<longrightarrow>
      (\<exists>m' c'. from_drop fuel (\<lambda>n. 4 \<le> n) m
          = Some (m', c', 5, [1 * Second, 2 * Second, 3 * Second, 4 * Second, 5 * Second])
        \<and> connected m' \<and> conn m' = Some 4 \<and> reconnectCount m' = 0 \<and> \<not> isReconnecting m'
        \<and> err m' = err m))
   \<and> (reconnectCount m = 0 \<and> 11 \<le> fuel \<longrightarrow>
      (\<exists>m'. from_drop fuel (\<lambda>n. False) m
          = Some (m', NoCmd, 5, [1 * Second, 2 * Second, 3 * Second, 4 * Second, 5 * Second])
        \<and> \<not> connected m' \<and> conn m' = None \<and> \<not> isReconnecting m'
        \<and> err m' = Some ''dial failed'' \<and> reconnectCount m' = 5))"
proof -
  have a: "\<exists>m' c'. from_login fuel (\<lambda>n. 4 \<le> n) m
          = Some (m', c', 5, [1 * Second, 2 * Second, 3 * Second, 4 * Second])
        \<and> connected m' \<and> conn m' = Some 4 \<and> reconnectCount m' = 0 \<and> \<not> isReconnecting m'
        \<and> err m' = err m"
    if "reconnectCount m = 0" "10 \<le> fuel"
    using login_recovers [OF that(1)] from_login_enough [OF _ that(2)] by blast
  have b: "\<exists>m'. from_login fuel (\<lambda>n. False) m
          = Some (m', NoCmd, 6, [1 * Second, 2 * Second, 3 * Second, 4 * Second, 5 * Second])
        \<and> \<not> connected m' \<and> conn m' = None \<and> \<not> isReconnecting m'
        \<and> err m' = Some ''dial failed'' \<and> reconnectCount m' = 5"
    if "reconnectCount m = 0" "12 \<le> fuel"
    using from_login_enough [OF login_gives_up [OF that(1)] that(2)] that(1)
    by (simp add: failed_def)
  have c: "\<exists>m' c'. from_drop fuel (\<lambda>n. 4 \<le> n) m
          = Some (m', c', 5, [1 * Second, 2 * Second, 3 * Second, 4 * Second, 5 * Second])
        \<and> connected m' \<and> conn m' = Some 4 \<and> reconnectCount m' = 0 \<and> \<not> isReconnecting m'
        \<and> err m' = err m"
    if "reconnectCount m = 0" "11 \<le> fuel"
    using drop_recovers [OF that(1)] from_drop_enough [OF _ that(2)] by blast
  have d: "\<exists>m'. from_drop fuel (\<lambda>n. False) m
          = Some (m', NoCmd, 5, [1 * Second, 2 * Second, 3 * Second, 4 * Second, 5 * Second])
        \<and> \<not> connected m' \<and> conn m' = None \<and> \<not> isReconnecting m'
        \<and> err m' = Some ''dial failed'' \<and> reconnectCount m' = 5"
    if "reconnectCount m = 0" "11 \<le> fuel"
    using from_drop_enough [OF drop_gives_up [OF that(1)] that(2)] that(1)
    by (simp add: failed_def)
  from fail_step [of m e] fail_last [of m e] a b c d show ?thesis by blast
qed

theorem reconnect_cycle_witness:
  "reconnectCount sample_model < 5
   \<and> Update sample_model (WsError ''EOF'')
       = (sample_model\<lparr>connected := False, conn := None, reconnectCount := 1, isReconnecting := True\<rparr>,
          Tick 1000000000 WsReconnect)
   \<and> \<not> reconnectCount (sample_model\<lparr>reconnectCount := 5\<rparr>) < 5
   \<and> Update (sample_model\<lparr>reconnectCount := 5\<rparr>) (WsError ''EOF'')
       = (sample_model\<lparr>reconnectCount := 5, connected := False, conn := None,
            isReconnecting := False, err := Some ''EOF''\<rparr>, NoCmd)
   \<and> reconnectCount sample_model = 0 \<and> (10::nat) \<le> 20 \<and> (11::nat) \<le> 20 \<and> (12::nat) \<le> 20
   \<and> from_login 20 (\<lambda>n. 4 \<le> n) sample_model
       = Some (sample_model\<lparr>conn := Some 4, connected := True\<rparr>,
               Batch [ListenForMessages 4, SendAuth ''alice'' ''pw1'' ''login''], 5,
               [1000000000, 2000000000, 3000000000, 4000000000])
   \<and> from_login 20 (\<lambda>n. False) sample_model
       = Some (sample_model\<lparr>reconnectCount := 5, err := Some ''dial failed''\<rparr>, NoCmd, 6,
               [1000000000, 2000000000, 3000000000, 4000000000, 5000000000])
   \<and> reconnectCount sample_connected = 0
   \<and> from_drop 20 (\<lambda>n. 4 \<le> n) sample_connected
       = Some (sample_connected\<lparr>conn := Some 4\<rparr>, ListenForMessages 4, 5,
               [1000000000, 2000000000, 3000000000, 4000000000, 5000000000])
   \<and> from_drop 20 (\<lambda>n. False) sample_connected
       = Some (sample_connected\<lparr>conn := None, connected := False, reconnectCount := 5,
                 err := Some ''dial failed''\<rparr>, NoCmd, 5,
               [1000000000, 2000000000, 3000000000, 4000000000, 5000000000])"
proof -
  have h: "reconnectCount sample_model < 5" "\<not> reconnectCount (sample_model\<lparr>reconnectCount := 5\<rparr>) < 5"
    "reconnectCount sample_model = 0" "(10::nat) \<le> 20" "(11::nat) \<le> 20" "(12::nat) \<le> 20"
    "reconnectCount sample_connected = 0"
    by (simp_all add: sample_model_def sample_connected_def)
  from reconnect_cycle [of sample_model "''EOF''" 20] h
  have c1: "Update sample_model (WsError ''EOF'')
       = (sample_model\<lparr>connected := False, conn := None,
            reconnectCount := reconnectCount sample_model + 1, isReconnecting := True\<rparr>,
          Tick (Second * (reconnectCount sample_model + 1)) WsReconnect)"
    and c3: "\<exists>m' c'. from_login 20 (\<lambda>n. 4 \<le> n) sample_model
          = Some (m', c', 5, [1 * Second, 2 * Second, 3 * Second, 4 * Second])"
    and c4: "\<exists>m'. from_login 20 (\<lambda>n. False) sample_model
          = Some (m', NoCmd, 6, [1 * Second, 2 * Second, 3 * Second, 4 * Second, 5 * Second])"
    by blast+
  from reconnect_cycle [of "sample_model\<lparr>reconnectCount := 5\<rparr>" "''EOF''" 20] h
  have c2: "Update (sample_model\<lparr>reconnectCount := 5\<rparr>) (WsError ''EOF'')
       = (sample_model\<lparr>reconnectCount := 5, connected := False, conn := None,
            isReconnecting := False, err := Some ''EOF''\<rparr>, NoCmd)"
    by blast
  from reconnect_cycle [of sample_connected "''EOF''" 20] h
  have c5: "\<exists>m' c'. from_drop 20 (\<lambda>n. 4 \<le> n) sample_connected
          = Some (m', c', 5, [1 * Second, 2 * Second, 3 * Second, 4 * Second, 5 * Second])"
    and c6: "\<exists>m'. from_drop 20 (\<lambda>n. False) sample_connected
          = Some (m', NoCmd, 5, [1 * Second, 2 * Second, 3 * Second, 4 * Second, 5 * Second])"
    by blast+
  have v1: "Update sample_model (WsError ''EOF'')
       = (sample_model\<lparr>connected := False, conn := None, reconnectCount := 1, isReconnecting := True\<rparr>,
          Tick 1000000000 WsReconnect)"
    unfolding c1 by (simp add: sample_model_def Second_def)
  have twenty: "(20::nat) = Suc (Suc (Suc (Suc (Suc (Suc (Suc (Suc (Suc (Suc (Suc (Suc (Suc (Suc
      (Suc (Suc (Suc (Suc (Suc (Suc 0)))))))))))))))))))" by simp
  have v3: "from_login 20 (\<lambda>n. 4 \<le> n) sample_model
       = Some (sample_model\<lparr>conn := Some 4, connected := True\<rparr>,
               Batch [ListenForMessages 4, SendAuth ''alice'' ''pw1'' ''login''], 5,
               [1000000000, 2000000000, 3000000000, 4000000000])"
    unfolding twenty by (simp add: from_login_def sample_model_def Second_def Let_def)
  have v4: "from_login 20 (\<lambda>n. False) sample_model
       = Some (sample_model\<lparr>reconnectCount := 5, err := Some ''dial failed''\<rparr>, NoCmd, 6,
               [1000000000, 2000000000, 3000000000, 4000000000, 5000000000])"
    unfolding twenty by (simp add: from_login_def sample_model_def Second_def Let_def)
  have v5: "from_drop 20 (\<lambda>n. 4 \<le> n) sample_connected
       = Some (sample_connected\<lparr>conn := Some 4\<rparr>, ListenForMessages 4, 5,
               [1000000000, 2000000000, 3000000000, 4000000000, 5000000000])"
    unfolding twenty
    by (simp add: from_drop_def sample_connected_def sample_model_def Second_def Let_def)
  have v6: "from_drop 20 (\<lambda>n. False) sample_connected
       = Some (sample_connected\<lparr>conn := None, connected := False, reconnectCount := 5,
                 err := Some ''dial failed''\<rparr>, NoCmd, 5,
               [1000000000, 2000000000, 3000000000, 4000000000, 5000000000])"
    unfolding twenty
    by (simp add: from_drop_def sample_connected_def sample_model_def Second_def Let_def)
  from h v1 c2 v3 v4 v5 v6 show ?thesis by blast
qed

section \<open>The client's saved session (internal/client/session)\<close>

subsection \<open>Encrypting and decrypting\<close>

lemma decrypt_cases:
  "decrypt env encoded w =
     (case b64_decode env encoded of
        None \<Rightarrow> Inl (Error ''illegal base64 data'')
      | Some data \<Rightarrow>
          (case NewCipher (getEncryptionKey env w) of
             Inl e \<Rightarrow> Inl e
           | Inr block \<Rightarrow>
               if length data < NonceSize then Inl (Error ''ciphertext too short'')
               else (case unseal env block (take NonceSize data) (drop NonceSize data) of
                       None \<Rightarrow> Inl (Error ''cipher: message authentication failed'')
                     | Some plaintext \<Rightarrow> Inr plaintext)))"
  by (simp add: decrypt_def gcm_Open_def Let_def split: option.splits sum.splits)

lemma NewCipher_cases:
  "NewCipher key = Inr key \<or> NewCipher key = Inl (Error ''crypto/aes: invalid key size'')"
  by (simp add: NewCipher_def)

lemma decrypt_no_panic: "decrypt env encoded w \<noteq> Inl (Panic p)"
  using NewCipher_cases [of "getEncryptionKey env w"]
  by (auto simp: decrypt_cases split: option.splits sum.splits)

lemma decrypt_error_or_value:
  "(\<exists>e. decrypt env encoded w = Inl (Error e)) \<or> (\<exists>plaintext. decrypt env encoded w = Inr plaintext)"
proof (cases "decrypt env encoded w")
  case (Inl f)
  with decrypt_no_panic [of env encoded w] show ?thesis by (cases f) auto
next
  case (Inr x)
  then show ?thesis by simp
qed

lemma encrypt_value:
  assumes "NewCipher (getEncryptionKey env w) = Inr (getEncryptionKey env w)"
    and "NonceSize \<le> length (entropy w)"
  shows "encrypt env data w =
     (Inr (b64_encode env (take NonceSize (entropy w)
             @ seal env (getEncryptionKey env w) (take NonceSize (entropy w)) data)),
      w\<lparr>entropy := drop NonceSize (entropy w)\<rparr>)"
  using assms by (simp add: encrypt_def ReadFull_def gcm_Seal_def Let_def)

lemma encrypt_result:
  assumes "fst (encrypt env data w) = Inr enc"
  shows "NewCipher (getEncryptionKey env w) = Inr (getEncryptionKey env w)
     \<and> NonceSize \<le> length (entropy w)
     \<and> enc = b64_encode env (take NonceSize (entropy w)
             @ seal env (getEncryptionKey env w) (take NonceSize (entropy w)) data)"
  using assms NewCipher_cases [of "getEncryptionKey env w"]
  by (auto simp: encrypt_def ReadFull_def gcm_Seal_def Let_def split: sum.splits if_splits)

lemma encrypt_no_panic: "fst (encrypt env data w) \<noteq> Inl (Panic p)"
  using NewCipher_cases [of "getEncryptionKey env w"]
  by (auto simp: encrypt_def ReadFull_def gcm_Seal_def Let_def split: sum.splits if_splits)

lemma sha256_size_key: "sha256_size env \<Longrightarrow> NewCipher (getEncryptionKey env w) = Inr (getEncryptionKey env w)"
  by (simp add: sha256_size_def NewCipher_def getEncryptionKey_def Let_def)

lemma decrypt_sealed:
  assumes "gcm_correct env" "b64_correct env"
    and "NewCipher (getEncryptionKey env w) = Inr (getEncryptionKey env w)"
    and "length nonce = NonceSize"
  shows "decrypt env (b64_encode env (nonce @ seal env (getEncryptionKey env w) nonce data)) w
     = Inr data"
  using assms by (simp add: decrypt_cases gcm_correct_def b64_correct_def)

lemma decrypt_encrypt:
  assumes "gcm_correct env" "b64_correct env" "fst (encrypt env data w) = Inr enc"
    and "getEncryptionKey env w' = getEncryptionKey env w"
  shows "decrypt env enc w' = Inr data"
proof -
  from encrypt_result [OF assms(3)] have k: "NewCipher (getEncryptionKey env w') = Inr (getEncryptionKey env w')"
    and n: "length (take NonceSize (entropy w)) = NonceSize"
    and e: "enc = b64_encode env (take NonceSize (entropy w)
             @ seal env (getEncryptionKey env w') (take NonceSize (entropy w)) data)"
    using assms(4) by simp_all
  show ?thesis unfolding e by (rule decrypt_sealed [OF assms(1,2) k n])
qed

text \<open>
  Claim C9. With an AES-GCM whose open undoes its seal and a base64 whose decoding
  undoes its encoding, decrypting what \<open>encrypt\<close> returned, under the same derived key,
  gives back the bytes that were encrypted; \<open>encrypt\<close> does return when the key has 32
  bytes and 12 random bytes can be read. \<open>decrypt\<close> never panics: input that is not
  base64, that decodes to fewer than 12 bytes, or that the GCM open rejects yields an
  error value.
\<close>

theorem encrypt_decrypt_roundtrip:
  "(gcm_correct env \<and> b64_correct env \<and> fst (encrypt env data w) = Inr enc
      \<and> getEncryptionKey env w' = getEncryptionKey env w \<longrightarrow> decrypt env enc w' = Inr data)
   \<and> (sha256_size env \<and> NonceSize \<le> length (entropy w) \<longrightarrow>
        (\<exists>enc. fst (encrypt env data w) = Inr enc))
   \<and> (\<forall>p. decrypt env encoded w \<noteq> Inl (Panic p))
   \<and> (b64_decode env encoded = None \<longrightarrow> (\<exists>e. decrypt env encoded w = Inl (Error e)))
   \<and> (b64_decode env encoded = Some d \<and> length d < NonceSize \<longrightarrow>
        (\<exists>e. decrypt env encoded w = Inl (Error e)))
   \<and> (b64_decode env encoded = Some d \<and> NonceSize \<le> length d
        \<and> unseal env (getEncryptionKey env w) (take NonceSize d) (drop NonceSize d) = None \<longrightarrow>
        (\<exists>e. decrypt env encoded w = Inl (Error e)))"
proof -
  have a: "decrypt env enc w' = Inr data"
    if "gcm_correct env" "b64_correct env" "fst (encrypt env data w) = Inr enc"
      "getEncryptionKey env w' = getEncryptionKey env w"
    using that by (rule decrypt_encrypt)
  have b: "\<exists>enc. fst (encrypt env data w) = Inr enc"
    if "sha256_size env" "NonceSize \<le> length (entropy w)"
    using encrypt_value [OF sha256_size_key [OF that(1)] that(2), of data] by simp
  have c: "\<forall>p. decrypt env encoded w \<noteq> Inl (Panic p)"
    using decrypt_no_panic by blast
  have d1: "\<exists>e. decrypt env encoded w = Inl (Error e)" if "b64_decode env encoded = None"
    using that by (simp add: decrypt_cases)
  have d2: "\<exists>e. decrypt env encoded w = Inl (Error e)"
    if "b64_decode env encoded = Some d" "length d < NonceSize"
    using that NewCipher_cases [of "getEncryptionKey env w"] by (auto simp: decrypt_cases)
  have d3: "\<exists>e. decrypt env encoded w = Inl (Error e)"
    if "b64_decode env encoded = Some d" "NonceSize \<le> length d"
      "unseal env (getEncryptionKey env w) (take NonceSize d) (drop NonceSize d) = None"
    using that NewCipher_cases [of "getEncryptionKey env w"] by (auto simp: decrypt_cases)
  from a b c d1 d2 d3 show ?thesis by blast
qed

subsection \<open>Saving and loading\<close>

lemma encrypt_no_panic_pair: "encrypt env data w = (Inl (Panic p), w1) \<Longrightarrow> False"
  using encrypt_no_panic [of env data w p] by simp

lemma Save_no_panic: "fst (Save env profileName url uname password w) \<noteq> Some (Panic p)"
  by (auto simp: Save_def Let_def split: option.splits prod.splits sum.splits if_splits
      dest: encrypt_no_panic_pair)

lemma Save_value:
  assumes "GetConfigDir env profileName \<noteq> []" "mkdir_ok env (GetConfigDir env profileName)"
    and "json_marshal env \<lparr>ServerURL = url, ss_Username = uname, ss_Password = password\<rparr> = Some js"
    and "NewCipher (getEncryptionKey env w) = Inr (getEncryptionKey env w)"
    and "NonceSize \<le> length (entropy w)"
    and "write_ok env (session_path env profileName)"
  shows "Save env profileName url uname password w =
     (None, w\<lparr>entropy := drop NonceSize (entropy w),
             files := (files w)(session_path env profileName \<mapsto>
               b64_encode env (take NonceSize (entropy w)
                 @ seal env (getEncryptionKey env w) (take NonceSize (entropy w)) js))\<rparr>)"
  using assms
  by (simp add: Save_def Let_def encrypt_value session_path_def)

lemma Load_no_panic: "Load env profileName w \<noteq> Inl (Panic p)"
proof -
  have s: "\<And>a b c. fst (Save env profileName a b c w) \<noteq> Some (Panic p)" by (rule Save_no_panic)
  have d: "\<And>data. decrypt env data w \<noteq> Inl (Panic p)" by (rule decrypt_no_panic)
  show ?thesis
  proof (cases "GetConfigDir env profileName = []")
    case True
    then show ?thesis by (simp add: Load_def Let_def)
  next
    case cd: False
    show ?thesis
    proof (cases "files w (session_path env profileName)")
      case None
      with cd show ?thesis by (simp add: Load_def session_path_def Let_def)
    next
      case (Some data)
      from decrypt_error_or_value [of env data w] show ?thesis
      proof (elim disjE exE)
        fix e assume e: "decrypt env data w = Inl (Error e)"
        show ?thesis
        proof (cases "json_unmarshal env data")
          case None
          with cd Some e show ?thesis by (simp add: Load_def session_path_def Let_def)
        next
          case (Some session)
          obtain r w1 where sv: "Save env profileName (ServerURL session) (ss_Username session)
                            (ss_Password session) w = (r, w1)" by (cases "Save env profileName (ServerURL session) (ss_Username session)
                            (ss_Password session) w")
          with s [of "ServerURL session" "ss_Username session" "ss_Password session"]
          have "r \<noteq> Some (Panic p)" by simp
          with cd \<open>files w (session_path env profileName) = Some data\<close> e Some sv show ?thesis
            by (auto simp: Load_def session_path_def Let_def split: option.splits failure.splits)
        qed
      next
        fix x assume "decrypt env data w = Inr x"
        with cd Some show ?thesis
          by (simp add: Load_def session_path_def Let_def split: option.splits)
      qed
    qed
  qed
qed

lemma Load_fallback:
  assumes "GetConfigDir env profileName \<noteq> []" "files w (session_path env profileName) = Some data"
    and "decrypt env data w = Inl (Error e)" "json_unmarshal env data = Some session"
  shows "Load env profileName w =
     Inr (Some session,
          snd (Save env profileName (ServerURL session) (ss_Username session) (ss_Password session) w))"
proof -
  obtain r w1 where sv: "Save env profileName (ServerURL session) (ss_Username session)
      (ss_Password session) w = (r, w1)"
    by (cases "Save env profileName (ServerURL session) (ss_Username session) (ss_Password session) w")
  from Save_no_panic [of env profileName "ServerURL session" "ss_Username session" "ss_Password session" w] sv
  have "\<And>p. r \<noteq> Some (Panic p)" by simp
  with assms sv show ?thesis
    by (auto simp: Load_def session_path_def Let_def split: option.splits failure.splits)
qed

lemma Load_nil:
  assumes "GetConfigDir env profileName = []
     \<or> files w (session_path env profileName) = None
     \<or> (\<exists>data e. files w (session_path env profileName) = Some data
           \<and> decrypt env data w = Inl (Error e) \<and> json_unmarshal env data = None)
     \<or> (\<exists>data plain. files w (session_path env profileName) = Some data
           \<and> decrypt env data w = Inr plain \<and> json_unmarshal env plain = None)"
  shows "Load env profileName w = Inr (None, w)"
  using assms by (auto simp: Load_def session_path_def Let_def)

lemma Load_decrypted:
  assumes "GetConfigDir env profileName \<noteq> []" "files w (session_path env profileName) = Some data"
    and "decrypt env data w = Inr plain" "json_unmarshal env plain = Some session"
  shows "Load env profileName w = Inr (Some session, w)"
  using assms by (simp add: Load_def session_path_def Let_def)

lemma first_readable_after_write:
  "path \<notin> set ps \<Longrightarrow>
     first_readable env (w\<lparr>entropy := en, files := (files w)(path \<mapsto> x)\<rparr>) ps
       = first_readable env w ps"
  by (induction ps) (auto split: option.splits)

lemma key_after_write:
  assumes "path \<noteq> ''/etc/machine-id''" "path \<noteq> ''/var/lib/dbus/machine-id''"
  shows "getEncryptionKey env (w\<lparr>entropy := en, files := (files w)(path \<mapsto> x)\<rparr>) = getEncryptionKey env w"
proof -
  from assms have "path \<notin> set [''/etc/machine-id'', ''/var/lib/dbus/machine-id'']" by simp
  from first_readable_after_write [OF this] show ?thesis
    unfolding getEncryptionKey_def by simp
qed

text \<open>
  Claim C8. When the session file can be read but \<open>decrypt\<close> returns an error, \<open>Load\<close>
  parses the raw file contents as JSON; if that succeeds it calls \<open>Save\<close> with the
  parsed fields and returns the parsed session. When \<open>Save\<close>'s steps succeed the file
  then holds the base64 of nonce and sealed JSON, and (with the library laws, and the
  session file not being a machine-id file) the next \<open>Load\<close> decrypts it to the same
  session. With no config directory, an unreadable file, or contents that neither
  decrypt nor parse, or decrypt but do not parse, \<open>Load\<close> returns nil and changes
  nothing. \<open>Load\<close> never panics.
\<close>

theorem Load_migrates_legacy:
  "(GetConfigDir env profileName \<noteq> [] \<and> files w (session_path env profileName) = Some data
      \<and> decrypt env data w = Inl (Error e) \<and> json_unmarshal env data = Some session \<longrightarrow>
      Load env profileName w =
        Inr (Some session,
             snd (Save env profileName (ServerURL session) (ss_Username session)
                    (ss_Password session) w))
      \<and> (mkdir_ok env (GetConfigDir env profileName) \<and> json_marshal env session = Some js
          \<and> sha256_size env \<and> NonceSize \<le> length (entropy w)
          \<and> write_ok env (session_path env profileName) \<longrightarrow>
          files (snd (Save env profileName (ServerURL session) (ss_Username session)
                        (ss_Password session) w)) (session_path env profileName)
            = Some (b64_encode env (take NonceSize (entropy w)
                      @ seal env (getEncryptionKey env w) (take NonceSize (entropy w)) js))
          \<and> (gcm_correct env \<and> b64_correct env \<and> json_unmarshal env js = Some session
              \<and> session_path env profileName \<noteq> ''/etc/machine-id''
              \<and> session_path env profileName \<noteq> ''/var/lib/dbus/machine-id'' \<longrightarrow>
              Load env profileName
                (snd (Save env profileName (ServerURL session) (ss_Username session)
                        (ss_Password session) w))
              = Inr (Some session,
                     snd (Save env profileName (ServerURL session) (ss_Username session)
                            (ss_Password session) w)))))
   \<and> (GetConfigDir env profileName = []
        \<or> files w (session_path env profileName) = None
        \<or> (\<exists>data e. files w (session_path env profileName) = Some data
              \<and> decrypt env data w = Inl (Error e) \<and> json_unmarshal env data = None)
        \<or> (\<exists>data plain. files w (session_path env profileName) = Some data
              \<and> decrypt env data w = Inr plain \<and> json_unmarshal env plain = None) \<longrightarrow>
        Load env profileName w = Inr (None, w))
   \<and> (\<forall>p. Load env profileName w \<noteq> Inl (Panic p))"
proof -
  let ?path = "session_path env profileName"
  let ?sv = "Save env profileName (ServerURL session) (ss_Username session) (ss_Password session) w"
  let ?enc = "b64_encode env (take NonceSize (entropy w)
                      @ seal env (getEncryptionKey env w) (take NonceSize (entropy w)) js)"
  have a: "Load env profileName w = Inr (Some session, snd ?sv)"
    if "GetConfigDir env profileName \<noteq> []" "files w ?path = Some data"
      "decrypt env data w = Inl (Error e)" "json_unmarshal env data = Some session"
    using that by (rule Load_fallback)
  have sv: "?sv = (None, w\<lparr>entropy := drop NonceSize (entropy w), files := (files w)(?path \<mapsto> ?enc)\<rparr>)"
    if "GetConfigDir env profileName \<noteq> []" "mkdir_ok env (GetConfigDir env profileName)"
      "json_marshal env session = Some js" "sha256_size env" "NonceSize \<le> length (entropy w)"
      "write_ok env ?path"
  proof -
    have eq: "\<lparr>ServerURL = ServerURL session, ss_Username = ss_Username session,
        ss_Password = ss_Password session\<rparr> = session" by simp
    from that(3) have m: "json_marshal env \<lparr>ServerURL = ServerURL session,
        ss_Username = ss_Username session, ss_Password = ss_Password session\<rparr> = Some js"
      unfolding eq .
    show ?thesis
      by (rule Save_value [OF that(1,2) m sha256_size_key [OF that(4)] that(5,6)])
  qed
  have b: "files (snd ?sv) ?path = Some ?enc"
    if "GetConfigDir env profileName \<noteq> []" "mkdir_ok env (GetConfigDir env profileName)"
      "json_marshal env session = Some js" "sha256_size env" "NonceSize \<le> length (entropy w)"
      "write_ok env ?path"
    using sv [OF that] by simp
  have c: "Load env profileName (snd ?sv) = Inr (Some session, snd ?sv)"
    if h: "GetConfigDir env profileName \<noteq> []" "mkdir_ok env (GetConfigDir env profileName)"
      "json_marshal env session = Some js" "sha256_size env" "NonceSize \<le> length (entropy w)"
      "write_ok env ?path"
      and l: "gcm_correct env" "b64_correct env" "json_unmarshal env js = Some session"
      "?path \<noteq> ''/etc/machine-id''" "?path \<noteq> ''/var/lib/dbus/machine-id''"
  proof -
    let ?w' = "w\<lparr>entropy := drop NonceSize (entropy w), files := (files w)(?path \<mapsto> ?enc)\<rparr>"
    have w': "snd ?sv = ?w'" using sv [OF h] by simp
    have key: "getEncryptionKey env ?w' = getEncryptionKey env w"
      by (rule key_after_write [OF l(4,5)])
    have kc: "NewCipher (getEncryptionKey env ?w') = Inr (getEncryptionKey env ?w')"
      by (rule sha256_size_key [OF h(4)])
    have n: "length (take NonceSize (entropy w)) = NonceSize" using h(5) by simp
    have "decrypt env (b64_encode env (take NonceSize (entropy w)
            @ seal env (getEncryptionKey env ?w') (take NonceSize (entropy w)) js)) ?w' = Inr js"
      by (rule decrypt_sealed [OF l(1,2) kc n])
    then have dec: "decrypt env ?enc ?w' = Inr js" unfolding key .
    have f: "files ?w' ?path = Some ?enc" by simp
    show ?thesis unfolding w' by (rule Load_decrypted [OF h(1) f dec l(3)])
  qed
  have d: "Load env profileName w = Inr (None, w)"
    if "GetConfigDir env profileName = []
        \<or> files w ?path = None
        \<or> (\<exists>data e. files w ?path = Some data
              \<and> decrypt env data w = Inl (Error e) \<and> json_unmarshal env data = None)
        \<or> (\<exists>data plain. files w ?path = Some data
              \<and> decrypt env data w = Inr plain \<and> json_unmarshal env plain = None)"
    using that by (rule Load_nil)
  have e: "\<forall>p. Load env profileName w \<noteq> Inl (Panic p)"
    using Load_no_panic by blast
  from a b c d e show ?thesis by blast
qed

subsection \<open>A sample environment for the session file\<close>

lemma length_sample_tag: "length (sample_tag key) = 16"
proof -
  have l: "length ''tttttttttttttttt'' = (16::nat)" by simp
  have "length (sample_tag key) = min (length key + 16) 16"
    unfolding sample_tag_def by (simp only: length_take length_append l)
  then show ?thesis by simp
qed

lemma length_sample_sha: "length (sha256 sample_session_env x) = 32"
proof -
  have l: "length ''00000000000000000000000000000000'' = (32::nat)" by simp
  have "length (take 32 (x @ ''00000000000000000000000000000000'')) = min (length x + 32) 32"
    by (simp only: length_take length_append l)
  then show ?thesis by (simp add: sample_session_env_def)
qed

lemma sample_laws:
  "gcm_correct sample_session_env" "b64_correct sample_session_env" "sha256_size sample_session_env"
proof -
  show "gcm_correct sample_session_env"
    by (simp add: gcm_correct_def sample_session_env_def length_sample_tag)
  show "b64_correct sample_session_env"
    by (simp add: b64_correct_def sample_session_env_def)
  show "sha256_size sample_session_env"
    unfolding sha256_size_def using length_sample_sha by blast
qed

lemmas sample_session_eval =
  sample_session_env_def sample_world_def sample_tag_def sample_unmarshal_def
  encrypt_def decrypt_def getEncryptionKey_def NewCipher_def NonceSize_def gcm_Seal_def gcm_Open_def
  ReadFull_def GetConfigDir_def session_path_def Save_def Load_def Let_def

theorem encrypt_decrypt_roundtrip_witness:
  "gcm_correct sample_session_env \<and> b64_correct sample_session_env \<and> sha256_size sample_session_env
   \<and> NonceSize \<le> length (entropy (sample_world None))
   \<and> fst (encrypt sample_session_env ''hello'' (sample_world None))
       = Inr ''b64:0123456789abollehabc0000000000000''
   \<and> getEncryptionKey sample_session_env (sample_world (Some ''x''))
       = getEncryptionKey sample_session_env (sample_world None)
   \<and> decrypt sample_session_env ''b64:0123456789abollehabc0000000000000'' (sample_world (Some ''x''))
       = Inr ''hello''
   \<and> b64_decode sample_session_env ''{not base64}'' = None
   \<and> decrypt sample_session_env ''{not base64}'' (sample_world None)
       = Inl (Error ''illegal base64 data'')
   \<and> b64_decode sample_session_env ''b64:short'' = Some ''short''
   \<and> length ''short'' < NonceSize
   \<and> decrypt sample_session_env ''b64:short'' (sample_world None)
       = Inl (Error ''ciphertext too short'')
   \<and> b64_decode sample_session_env ''b64:0123456789abollehXbc0000000000000''
       = Some ''0123456789abollehXbc0000000000000''
   \<and> NonceSize \<le> length ''0123456789abollehXbc0000000000000''
   \<and> unseal sample_session_env (getEncryptionKey sample_session_env (sample_world None))
        (take NonceSize ''0123456789abollehXbc0000000000000'')
        (drop NonceSize ''0123456789abollehXbc0000000000000'') = None
   \<and> decrypt sample_session_env ''b64:0123456789abollehXbc0000000000000'' (sample_world None)
       = Inl (Error ''cipher: message authentication failed'')"
proof -
  let ?env = sample_session_env
  let ?w = "sample_world None"
  let ?w' = "sample_world (Some ''x'')"
  let ?enc = "''b64:0123456789abollehabc0000000000000''"
  let ?bad = "''0123456789abollehXbc0000000000000''"
  have h1: "NonceSize \<le> length (entropy ?w)" "fst (encrypt ?env ''hello'' ?w) = Inr ?enc"
    "getEncryptionKey ?env ?w' = getEncryptionKey ?env ?w"
    by (simp_all add: sample_session_eval)
  have h2: "b64_decode ?env ''{not base64}'' = None" "b64_decode ?env ''b64:short'' = Some ''short''"
    "length ''short'' < NonceSize" "b64_decode ?env (''b64:'' @ ?bad) = Some ?bad"
    "NonceSize \<le> length ?bad"
    "unseal ?env (getEncryptionKey ?env ?w) (take NonceSize ?bad) (drop NonceSize ?bad) = None"
    by (simp_all add: sample_session_eval)
  from encrypt_decrypt_roundtrip [of ?env "''hello''" ?w ?enc ?w' "''{not base64}''" "''short''"]
    sample_laws h1 h2
  have c1: "decrypt ?env ?enc ?w' = Inr ''hello''"
    and c2: "\<exists>e. decrypt ?env ''{not base64}'' ?w = Inl (Error e)"
    by blast+
  from encrypt_decrypt_roundtrip [of ?env "''hello''" ?w ?enc ?w' "''b64:short''" "''short''"] h2
  have c3: "\<exists>e. decrypt ?env ''b64:short'' ?w = Inl (Error e)" by blast
  from encrypt_decrypt_roundtrip [of ?env "''hello''" ?w ?enc ?w' "''b64:'' @ ?bad" ?bad] h2
  have c4: "\<exists>e. decrypt ?env (''b64:'' @ ?bad) ?w = Inl (Error e)" by blast
  have v2: "decrypt ?env ''{not base64}'' ?w = Inl (Error ''illegal base64 data'')"
    and v3: "decrypt ?env ''b64:short'' ?w = Inl (Error ''ciphertext too short'')"
    and v4: "decrypt ?env (''b64:'' @ ?bad) ?w = Inl (Error ''cipher: message authentication failed'')"
    by (simp_all add: sample_session_eval)
  from sample_laws h1 c1 h2 v2 v3 v4 show ?thesis by simp
qed

theorem Load_migrates_legacy_witness:
  "GetConfigDir sample_session_env ''default'' = ''/home/u/.config/cldzmsg/default''
   \<and> session_path sample_session_env ''default'' = ''/home/u/.config/cldzmsg/default/session.json''
   \<and> files (sample_world (Some ''{ws://h/ws|alice|pw1}'')) (session_path sample_session_env ''default'')
       = Some ''{ws://h/ws|alice|pw1}''
   \<and> decrypt sample_session_env ''{ws://h/ws|alice|pw1}'' (sample_world (Some ''{ws://h/ws|alice|pw1}''))
       = Inl (Error ''illegal base64 data'')
   \<and> json_unmarshal sample_session_env ''{ws://h/ws|alice|pw1}''
       = Some \<lparr>ServerURL = ''ws://h/ws'', ss_Username = ''alice'', ss_Password = ''pw1''\<rparr>
   \<and> json_marshal sample_session_env \<lparr>ServerURL = ''ws://h/ws'', ss_Username = ''alice'', ss_Password = ''pw1''\<rparr>
       = Some ''{ws://h/ws|alice|pw1}''
   \<and> Load sample_session_env ''default'' (sample_world (Some ''{ws://h/ws|alice|pw1}''))
       = Inr (Some \<lparr>ServerURL = ''ws://h/ws'', ss_Username = ''alice'', ss_Password = ''pw1''\<rparr>,
              (sample_world (Some ''b64:0123456789ab}1wp|ecila|sw/h//:sw{abc0000000000000''))
                \<lparr>entropy := ''cdef''\<rparr>)
   \<and> Load sample_session_env ''default''
        ((sample_world (Some ''b64:0123456789ab}1wp|ecila|sw/h//:sw{abc0000000000000''))\<lparr>entropy := ''cdef''\<rparr>)
       = Inr (Some \<lparr>ServerURL = ''ws://h/ws'', ss_Username = ''alice'', ss_Password = ''pw1''\<rparr>,
              (sample_world (Some ''b64:0123456789ab}1wp|ecila|sw/h//:sw{abc0000000000000''))
                \<lparr>entropy := ''cdef''\<rparr>)
   \<and> files (sample_world None) (session_path sample_session_env ''default'') = None
   \<and> Load sample_session_env ''default'' (sample_world None) = Inr (None, sample_world None)
   \<and> Load sample_session_env ''default'' (sample_world (Some ''garbage''))
       = Inr (None, sample_world (Some ''garbage''))"
proof -
  let ?env = sample_session_env
  let ?js = "''{ws://h/ws|alice|pw1}''"
  let ?w = "sample_world (Some ?js)"
  let ?sess = "\<lparr>ServerURL = ''ws://h/ws'', ss_Username = ''alice'', ss_Password = ''pw1''\<rparr>"
  let ?w2 = "(sample_world (Some ''b64:0123456789ab}1wp|ecila|sw/h//:sw{abc0000000000000''))
                \<lparr>entropy := ''cdef''\<rparr>"
  let ?sv = "Save ?env ''default'' (ServerURL ?sess) (ss_Username ?sess) (ss_Password ?sess) ?w"
  have p: "GetConfigDir ?env ''default'' = ''/home/u/.config/cldzmsg/default''"
    "session_path ?env ''default'' = ''/home/u/.config/cldzmsg/default/session.json''"
    by (simp_all add: sample_session_eval)
  have h1: "GetConfigDir ?env ''default'' \<noteq> []" "files ?w (session_path ?env ''default'') = Some ?js"
    "decrypt ?env ?js ?w = Inl (Error ''illegal base64 data'')"
    "json_unmarshal ?env ?js = Some ?sess"
    by (simp_all add: sample_session_eval)
  have h2: "mkdir_ok ?env (GetConfigDir ?env ''default'')" "json_marshal ?env ?sess = Some ?js"
    "NonceSize \<le> length (entropy ?w)" "write_ok ?env (session_path ?env ''default'')"
    "session_path ?env ''default'' \<noteq> ''/etc/machine-id''"
    "session_path ?env ''default'' \<noteq> ''/var/lib/dbus/machine-id''"
    by (simp_all add: sample_session_eval)
  have sv: "snd ?sv = ?w2"
    by (simp add: sample_session_eval fun_upd_twist)
  note T = Load_migrates_legacy [where env = ?env and profileName = "''default''"]
  from T [where w = ?w and data = ?js and e = "''illegal base64 data''" and session = ?sess and js = ?js]
    h1 h2 sample_laws
  have c1: "Load ?env ''default'' ?w = Inr (Some ?sess, snd ?sv)"
    and c2: "Load ?env ''default'' (snd ?sv) = Inr (Some ?sess, snd ?sv)"
    by blast+
  have n1: "files (sample_world None) (session_path ?env ''default'') = None"
    by (simp add: sample_session_eval)
  from T [where w = "sample_world None"] n1
  have c3: "Load ?env ''default'' (sample_world None) = Inr (None, sample_world None)" by blast
  have n2: "files (sample_world (Some ''garbage'')) (session_path ?env ''default'') = Some ''garbage''
      \<and> decrypt ?env ''garbage'' (sample_world (Some ''garbage'')) = Inl (Error ''illegal base64 data'')
      \<and> json_unmarshal ?env ''garbage'' = None"
    by (simp add: sample_session_eval)
  from T [where w = "sample_world (Some ''garbage'')"] n2
  have c4: "Load ?env ''default'' (sample_world (Some ''garbage''))
      = Inr (None, sample_world (Some ''garbage''))" by blast
  from p h1(2-4) h2(2) c1 c2 n1 c3 c4 show ?thesis unfolding sv by blast
qed

end
